theory Spec2Isabelle
  imports Main "HOL-Library.AList" "HOL-Library.Multiset"
begin

section \<open>VIA Mapper: converting keyboard configurations between Keychron Q1 Pro and GMMK Pro\<close>

text \<open>
  A shallow embedding of \<^verbatim>\<open>run.py\<close>. The functions that parse the command line, read
  the file, print and log are input and output only and are not modelled; the embedding
  starts at the parsed configuration (the value of \<^verbatim>\<open>json.load\<close>) and ends at the
  configuration handed to \<^verbatim>\<open>json.dumps\<close>.
\<close>

subsection \<open>Values and exceptions\<close>

text \<open>
  The values \<^verbatim>\<open>json.load\<close> produces. A JSON object is a Python dict, which keeps its
  keys in insertion order: an association list. JSON numbers with a fraction or an
  exponent (Python floats) are not modelled.
\<close>

datatype json =
    JNull
  | JBool bool
  | JInt int
  | JStr string
  | JArr "json list"
  | JObj "(string \<times> json) list"

text \<open>
  The exceptions the modelled code can raise. \<open>NoObject\<close> is not a Python exception: it is
  the answer of the store model below to an address that holds no object, which no Python
  value is.
\<close>

datatype error = KeyError | IndexError | TypeError | AttributeError | NoObject

text \<open>
  Python's \<^verbatim>\<open>==\<close> on atoms: \<^verbatim>\<open>True\<close> and \<^verbatim>\<open>False\<close> are the integers 1 and 0,
  and atoms of different kinds are different. The program compares values only with an
  integer constant of a keyboard profile or with the string \<^verbatim>\<open>"KC_NO"\<close>; on two
  containers \<open>py_eq\<close> is plain structural equality.
\<close>

fun as_int :: "json \<Rightarrow> int option" where
  "as_int (JInt n) = Some n"
| "as_int (JBool b) = Some (if b then 1 else 0)"
| "as_int _ = None"

definition py_eq :: "json \<Rightarrow> json \<Rightarrow> bool" where
  "py_eq a b =
     (case (as_int a, as_int b) of
        (Some m, Some n) \<Rightarrow> m = n
      | (None, None) \<Rightarrow> a = b
      | _ \<Rightarrow> False)"

text \<open>\<^verbatim>\<open>d[k]\<close> on a dict: KeyError when the key is missing.\<close>

definition dict_get :: "('k \<times> 'v) list \<Rightarrow> 'k \<Rightarrow> error + 'v" where
  "dict_get d k = (case map_of d k of None \<Rightarrow> Inl KeyError | Some v \<Rightarrow> Inr v)"

text \<open>
  \<^verbatim>\<open>d.update(other)\<close>: every item of \<open>other\<close>, in its order, is stored in \<open>d\<close>;
  a key that is present keeps its place, a new key goes to the end.
\<close>

definition dict_update :: "('k \<times> 'v) list \<Rightarrow> ('k \<times> 'v) list \<Rightarrow> ('k \<times> 'v) list" where
  "dict_update d other = foldl (\<lambda>acc (k, v). AList.update k v acc) d other"

text \<open>
  The position that the index \<open>i\<close> denotes in a Python list of length \<open>n\<close>: an index
  from \<open>0\<close> to \<open>n - 1\<close> denotes itself, an index from \<open>-n\<close> to \<open>-1\<close> counts from
  the end, any other index denotes no position.
\<close>

definition list_position :: "nat \<Rightarrow> int \<Rightarrow> nat option" where
  "list_position n i =
     (if 0 \<le> i \<and> i < int n then Some (nat i)
      else if i < 0 \<and> - int n \<le> i then Some (nat (int n + i))
      else None)"

text \<open>\<^verbatim>\<open>xs[i]\<close> and \<^verbatim>\<open>xs[i] = v\<close> on a list: IndexError outside the list.\<close>

definition py_getitem :: "'a list \<Rightarrow> int \<Rightarrow> error + 'a" where
  "py_getitem xs i =
     (case list_position (length xs) i of
        None \<Rightarrow> Inl IndexError
      | Some p \<Rightarrow> Inr (xs ! p))"

definition py_setitem :: "'a list \<Rightarrow> int \<Rightarrow> 'a \<Rightarrow> error + 'a list" where
  "py_setitem xs i v =
     (case list_position (length xs) i of
        None \<Rightarrow> Inl IndexError
      | Some p \<Rightarrow> Inr (xs[p := v]))"

text \<open>
  \<^verbatim>\<open>x[i]\<close> with an integer \<open>i\<close> on any value: a list gives its element, a string its
  one-character substring, a dict raises KeyError (its keys are strings), anything else
  is not subscriptable.
\<close>

fun py_subscript :: "json \<Rightarrow> int \<Rightarrow> error + json" where
  "py_subscript (JArr xs) i = py_getitem xs i"
| "py_subscript (JStr s) i =
     (case py_getitem s i of Inl e \<Rightarrow> Inl e | Inr c \<Rightarrow> Inr (JStr [c]))"
| "py_subscript (JObj kvs) i = Inl KeyError"
| "py_subscript _ i = Inl TypeError"

text \<open>
  \<^verbatim>\<open>for x in v\<close>: a list gives its elements, a string its characters, a dict its keys;
  anything else is not iterable.
\<close>

fun py_iter :: "json \<Rightarrow> error + json list" where
  "py_iter (JArr xs) = Inr xs"
| "py_iter (JStr s) = Inr (map (\<lambda>c. JStr [c]) s)"
| "py_iter (JObj kvs) = Inr (map (\<lambda>kv. JStr (fst kv)) kvs)"
| "py_iter _ = Inl TypeError"

text \<open>
  \<^verbatim>\<open>xs.index(x)\<close>: the first position holding \<open>x\<close>; \<open>None\<close> stands for the
  ValueError raised when there is none.
\<close>

fun list_index :: "'a list \<Rightarrow> 'a \<Rightarrow> int option" where
  "list_index [] x = None"
| "list_index (y # ys) x =
     (if y = x then Some 0
      else (case list_index ys x of None \<Rightarrow> None | Some j \<Rightarrow> Some (j + 1)))"

text \<open>\<^verbatim>\<open>enumerate(xs)\<close>: the elements paired with their positions.\<close>

definition py_enumerate :: "'a list \<Rightarrow> (int \<times> 'a) list" where
  "py_enumerate xs = zip (map int [0..<length xs]) xs"

subsection \<open>The constant tables\<close>

definition KEYCHRON_LAYER :: "string list" where
  "KEYCHRON_LAYER =
   [''KC_ESC'', ''KC_F1'', ''KC_F2'', ''KC_F3'', ''KC_F4'', ''KC_F5'', ''KC_F6'',
    ''KC_F7'', ''KC_F8'', ''KC_F9'', ''KC_F10'', ''KC_F11'', ''KC_F12'', ''KC_PSCR'',
    ''KC_NO'', ''KC_MUTE'', ''KC_GRV'', ''KC_1'', ''KC_2'', ''KC_3'', ''KC_4'', ''KC_5'',
    ''KC_6'', ''KC_7'', ''KC_8'', ''KC_9'', ''KC_0'', ''KC_MINS'', ''KC_EQL'', ''KC_BSPC'',
    ''KC_NO'', ''KC_PGUP'', ''KC_TAB'', ''KC_Q'', ''KC_W'', ''KC_E'', ''KC_R'', ''KC_T'',
    ''KC_Y'', ''KC_U'', ''KC_I'', ''KC_O'', ''KC_P'', ''KC_LBRC'', ''KC_RBRC'',
    ''KC_BSLS'', ''KC_NO'', ''KC_PGDN'', ''KC_CAPS'', ''KC_A'', ''KC_S'', ''KC_D'',
    ''KC_F'', ''KC_G'', ''KC_H'', ''KC_J'', ''KC_K'', ''KC_L'', ''KC_SCLN'', ''KC_QUOT'',
    ''KC_NO'', ''KC_ENT'', ''KC_NO'', ''KC_HOME'', ''KC_LSFT'', ''KC_NO'', ''KC_Z'',
    ''KC_X'', ''KC_C'', ''KC_V'', ''KC_B'', ''KC_N'', ''KC_M'', ''KC_COMM'', ''KC_DOT'',
    ''KC_SLSH'', ''KC_NO'', ''KC_RSFT'', ''KC_UP'', ''KC_NO'', ''KC_LCTL'', ''KC_LGUI'',
    ''KC_LALT'', ''KC_NO'', ''KC_NO'', ''KC_NO'', ''KC_SPC'', ''KC_NO'', ''KC_NO'',
    ''KC_NO'', ''KC_RALT'', ''KC_FN'', ''KC_RCTL'', ''KC_LEFT'', ''KC_DOWN'', ''KC_RGHT'']"

definition GMMK_LAYER :: "string list" where
  "GMMK_LAYER =
   [''KC_LSFT'', ''KC_MUTE'', ''KC_NO'', ''KC_LEFT'', ''KC_RCTL'', ''KC_RGHT'',
    ''KC_LCTL'', ''KC_F5'', ''KC_Q'', ''KC_TAB'', ''KC_A'', ''KC_ESC'', ''KC_Z'',
    ''KC_PGUP'', ''KC_GRV'', ''KC_1'', ''KC_W'', ''KC_CAPS'', ''KC_S'', ''KC_NO'',
    ''KC_X'', ''KC_PGDN'', ''KC_F1'', ''KC_2'', ''KC_E'', ''KC_F3'', ''KC_D'', ''KC_F4'',
    ''KC_C'', ''KC_UP'', ''KC_F2'', ''KC_3'', ''KC_R'', ''KC_T'', ''KC_F'', ''KC_G'',
    ''KC_V'', ''KC_B'', ''KC_5'', ''KC_4'', ''KC_U'', ''KC_Y'', ''KC_J'', ''KC_H'',
    ''KC_M'', ''KC_N'', ''KC_6'', ''KC_7'', ''KC_I'', ''KC_RBRC'', ''KC_K'', ''KC_F6'',
    ''KC_COMM'', ''KC_DEL'', ''KC_EQL'', ''KC_8'', ''KC_O'', ''KC_F7'', ''KC_L'',
    ''KC_DOWN'', ''KC_DOT'', ''KC_HOME'', ''KC_F8'', ''KC_9'', ''KC_P'', ''KC_LBRC'',
    ''KC_SCLN'', ''KC_QUOT'', ''KC_NO'', ''KC_SLSH'', ''KC_MINS'', ''KC_0'', ''KC_LGUI'',
    ''KC_RSFT'', ''KC_FN'', ''KC_LALT'', ''KC_SPC'', ''KC_RALT'', ''KC_NO'', ''KC_PSCR'',
    ''KC_NO'', ''KC_BSPC'', ''KC_BSLS'', ''KC_F11'', ''KC_ENT'', ''KC_F12'', ''KC_F9'',
    ''KC_F10'']"

definition KEYCHRON_FIXES :: "(string \<times> string) list" where
  "KEYCHRON_FIXES =
   [(''CUSTOM(0)'', ''KC_LALT''), (''CUSTOM(1)'', ''KC_RALT''), (''CUSTOM(3)'', ''KC_RGUI'')]"

definition GMMK_FIXES :: "(string \<times> string) list" where
  "GMMK_FIXES = []"

definition KEYCHRON_INFO :: "(string \<times> json) list" where
  "KEYCHRON_INFO =
   [(''name'', JStr ''Keyboard 81 Pro/Q1 Pro ANSI RGB Knob''),
    (''vendorProductId'', JInt 875824656)]"

definition GMMK_INFO :: "(string \<times> json) list" where
  "GMMK_INFO = [(''name'', JStr ''GMMK Pro''), (''vendorProductId'', JInt 839864388)]"

subsection \<open>The functions of the program\<close>

text \<open>
  \<^verbatim>\<open>detect_keyboard\<close> returns \<^verbatim>\<open>"KEYCHRON"\<close>, \<^verbatim>\<open>"GMMK"\<close> or \<^verbatim>\<open>None\<close>;
  \<^verbatim>\<open>config[key]\<close> raises KeyError when the field is missing.
\<close>

definition detect_keyboard :: "(string \<times> json) list \<Rightarrow> error + string option" where
  "detect_keyboard config =
     (let key = ''vendorProductId'' in
      case dict_get config key of Inl e \<Rightarrow> Inl e | Inr c \<Rightarrow>
      case dict_get KEYCHRON_INFO key of Inl e \<Rightarrow> Inl e | Inr k \<Rightarrow>
      if py_eq c k then Inr (Some ''KEYCHRON'')
      else
        case dict_get config key of Inl e \<Rightarrow> Inl e | Inr c' \<Rightarrow>
        case dict_get GMMK_INFO key of Inl e \<Rightarrow> Inl e | Inr g \<Rightarrow>
        if py_eq c' g then Inr (Some ''GMMK'') else Inr None)"

text \<open>
  \<^verbatim>\<open>get_mapping\<close>: the loop over \<^verbatim>\<open>enumerate(old)\<close>, with the dict built so far as
  the accumulator.
\<close>

fun get_mapping_loop ::
  "(int \<times> string) list \<Rightarrow> string list \<Rightarrow> (int \<times> int) list \<Rightarrow> (int \<times> int) list" where
  "get_mapping_loop [] new mapping = mapping"
| "get_mapping_loop ((i, key) # rest) new mapping =
     (if key = ''KC_NO'' then get_mapping_loop rest new mapping
      else
        (case list_index new key of
           Some j \<Rightarrow> get_mapping_loop rest new (AList.update i j mapping)
         | None \<Rightarrow> get_mapping_loop rest new mapping))"

definition get_mapping :: "string list \<Rightarrow> string list \<Rightarrow> (int \<times> int) list" where
  "get_mapping old new = get_mapping_loop (py_enumerate old) new []"

text \<open>
  \<^verbatim>\<open>fixes[key] if key in fixes else key\<close>: looking a list or a dict up in a dict
  raises TypeError (unhashable); the keys of \<open>fixes\<close> are strings, so no other value is
  found.
\<close>

definition fix_key :: "(string \<times> string) list \<Rightarrow> json \<Rightarrow> error + json" where
  "fix_key fixes key =
     (case key of
        JArr xs \<Rightarrow> Inl TypeError
      | JObj kvs \<Rightarrow> Inl TypeError
      | JStr s \<Rightarrow> (case map_of fixes s of Some r \<Rightarrow> Inr (JStr r) | None \<Rightarrow> Inr key)
      | _ \<Rightarrow> Inr key)"

text \<open>
  The body of the loop of \<^verbatim>\<open>map_layer\<close> for one pair of the mapping, up to the
  assignment: \<open>None\<close> when it continues without writing, \<open>Some (new_idx, v)\<close> when it
  goes on to store \<open>v\<close> at \<open>new_idx\<close>.
\<close>

definition map_layer_step ::
  "json \<Rightarrow> (string \<times> string) list \<Rightarrow> int \<Rightarrow> int \<Rightarrow> error + (int \<times> json) option" where
  "map_layer_step layer fixes idx new_idx =
     (case py_subscript layer idx of Inl e \<Rightarrow> Inl e | Inr k \<Rightarrow>
      if py_eq k (JStr ''KC_NO'') then Inr None
      else
        case py_subscript layer idx of Inl e \<Rightarrow> Inl e | Inr key \<Rightarrow>
        case fix_key fixes key of Inl e \<Rightarrow> Inl e | Inr v \<Rightarrow> Inr (Some (new_idx, v)))"

fun map_layer_loop ::
  "json \<Rightarrow> (string \<times> string) list \<Rightarrow> (int \<times> int) list \<Rightarrow> json list \<Rightarrow> error + json list" where
  "map_layer_loop layer fixes [] new_layer = Inr new_layer"
| "map_layer_loop layer fixes ((idx, new_idx) # rest) new_layer =
     (case map_layer_step layer fixes idx new_idx of
        Inl e \<Rightarrow> Inl e
      | Inr None \<Rightarrow> map_layer_loop layer fixes rest new_layer
      | Inr (Some (j, v)) \<Rightarrow>
          (case py_setitem new_layer j v of
             Inl e \<Rightarrow> Inl e
           | Inr new_layer' \<Rightarrow> map_layer_loop layer fixes rest new_layer'))"

definition map_layer ::
  "json \<Rightarrow> nat \<Rightarrow> (int \<times> int) list \<Rightarrow> (string \<times> string) list \<Rightarrow> error + json list" where
  "map_layer layer layer_size mapping fixes =
     map_layer_loop layer fixes mapping (replicate layer_size (JStr ''KC_NO''))"

text \<open>The list comprehension of \<^verbatim>\<open>_map_config\<close>: the first exception ends it.\<close>

fun map_layers ::
  "json list \<Rightarrow> nat \<Rightarrow> (int \<times> int) list \<Rightarrow> (string \<times> string) list \<Rightarrow> error + json list" where
  "map_layers [] layer_size mapping fixes = Inr []"
| "map_layers (layer # rest) layer_size mapping fixes =
     (case map_layer layer layer_size mapping fixes of Inl e \<Rightarrow> Inl e | Inr l \<Rightarrow>
      case map_layers rest layer_size mapping fixes of Inl e \<Rightarrow> Inl e | Inr ls \<Rightarrow>
      Inr (JArr l # ls))"

text \<open>\<^verbatim>\<open>_map_config\<close> (an Isabelle name cannot start with an underscore).\<close>

definition priv_map_config ::
  "(string \<times> json) list \<Rightarrow> (string \<times> json) list \<Rightarrow> nat \<Rightarrow> (int \<times> int) list \<Rightarrow>
   (string \<times> string) list \<Rightarrow> error + (string \<times> json) list" where
  "priv_map_config config keyboard_info layer_size mapping fixes =
     (let new_config = dict_update config keyboard_info in
      case dict_get config ''layers'' of Inl e \<Rightarrow> Inl e | Inr layers \<Rightarrow>
      case py_iter layers of Inl e \<Rightarrow> Inl e | Inr ls \<Rightarrow>
      case map_layers ls layer_size mapping fixes of Inl e \<Rightarrow> Inl e | Inr new_layers \<Rightarrow>
      Inr (dict_update new_config [(''layers'', JArr new_layers)]))"

definition map_config :: "(string \<times> json) list \<Rightarrow> string \<Rightarrow> error + (string \<times> json) list" where
  "map_config config keyboard =
     (let is_keychron = (keyboard = ''KEYCHRON'');
          keyboard_info = (if is_keychron then GMMK_INFO else KEYCHRON_INFO);
          layer_size = (if is_keychron then length GMMK_LAYER else length KEYCHRON_LAYER);
          fixes = (if is_keychron then KEYCHRON_FIXES else GMMK_FIXES);
          from_layer = (if is_keychron then KEYCHRON_LAYER else GMMK_LAYER);
          to_layer = (if is_keychron then GMMK_LAYER else KEYCHRON_LAYER);
          mapping = get_mapping from_layer to_layer
      in priv_map_config config keyboard_info layer_size mapping fixes)"

subsection \<open>The program on a store of objects\<close>

text \<open>
  A Python dict or list is an object with an identity, and a variable or a container holds
  a reference to it: \<^verbatim>\<open>config.copy()\<close> makes a new dict that shares its values with
  \<open>config\<close>, and an assignment \<^verbatim>\<open>xs[i] = v\<close> is seen through every reference to \<open>xs\<close>.
  The functions above work on values and cannot say which object is written. To state
  that the objects of the caller are left alone, \<^verbatim>\<open>_map_config\<close> and \<^verbatim>\<open>map_layer\<close>
  are modelled a second time on an explicit store: a list of objects, an address being a
  position in it. Strings, numbers, booleans and \<^verbatim>\<open>None\<close> are immutable and stand for
  themselves.
\<close>

datatype val = VNull | VBool bool | VInt int | VStr string | VRef nat

datatype obj = ODict "(string \<times> val) list" | OList "val list"

type_synonym store = "obj list"

text \<open>A new object gets the next free address.\<close>

definition st_alloc :: "store \<Rightarrow> obj \<Rightarrow> nat \<times> store" where
  "st_alloc s ob = (length s, s @ [ob])"

definition st_obj :: "store \<Rightarrow> nat \<Rightarrow> error + obj" where
  "st_obj s a = (if a < length s then Inr (s ! a) else Inl NoObject)"

text \<open>
  \<^verbatim>\<open>x[i]\<close> with an integer \<open>i\<close>, \<^verbatim>\<open>xs[i] = v\<close> on the object at an address,
  \<^verbatim>\<open>d[k]\<close> and \<^verbatim>\<open>d.update(other)\<close> on the object at an address (a list has no
  \<^verbatim>\<open>update\<close>), \<^verbatim>\<open>x.copy()\<close> (a shallow copy: a new object with the same content) and
  \<^verbatim>\<open>for y in x\<close>.
\<close>

definition st_subscript :: "store \<Rightarrow> val \<Rightarrow> int \<Rightarrow> error + val" where
  "st_subscript s x i =
     (case x of
        VRef a \<Rightarrow>
          (case st_obj s a of
             Inl e \<Rightarrow> Inl e
           | Inr (OList xs) \<Rightarrow> py_getitem xs i
           | Inr (ODict kvs) \<Rightarrow> Inl KeyError)
      | VStr str \<Rightarrow> (case py_getitem str i of Inl e \<Rightarrow> Inl e | Inr c \<Rightarrow> Inr (VStr [c]))
      | _ \<Rightarrow> Inl TypeError)"

definition st_setitem :: "store \<Rightarrow> nat \<Rightarrow> int \<Rightarrow> val \<Rightarrow> error + store" where
  "st_setitem s a i v =
     (case st_obj s a of
        Inl e \<Rightarrow> Inl e
      | Inr (OList xs) \<Rightarrow>
          (case py_setitem xs i v of Inl e \<Rightarrow> Inl e | Inr xs' \<Rightarrow> Inr (s[a := OList xs']))
      | Inr (ODict kvs) \<Rightarrow> Inl TypeError)"

definition st_dict_getitem :: "store \<Rightarrow> nat \<Rightarrow> string \<Rightarrow> error + val" where
  "st_dict_getitem s a k =
     (case st_obj s a of
        Inl e \<Rightarrow> Inl e
      | Inr (ODict kvs) \<Rightarrow> dict_get kvs k
      | Inr (OList xs) \<Rightarrow> Inl TypeError)"

definition st_dict_update :: "store \<Rightarrow> nat \<Rightarrow> (string \<times> val) list \<Rightarrow> error + store" where
  "st_dict_update s a other =
     (case st_obj s a of
        Inl e \<Rightarrow> Inl e
      | Inr (ODict kvs) \<Rightarrow> Inr (s[a := ODict (dict_update kvs other)])
      | Inr (OList xs) \<Rightarrow> Inl AttributeError)"

definition st_copy :: "store \<Rightarrow> nat \<Rightarrow> error + nat \<times> store" where
  "st_copy s a = (case st_obj s a of Inl e \<Rightarrow> Inl e | Inr ob \<Rightarrow> Inr (st_alloc s ob))"

definition st_iter :: "store \<Rightarrow> val \<Rightarrow> error + val list" where
  "st_iter s x =
     (case x of
        VRef a \<Rightarrow>
          (case st_obj s a of
             Inl e \<Rightarrow> Inl e
           | Inr (OList xs) \<Rightarrow> Inr xs
           | Inr (ODict kvs) \<Rightarrow> Inr (map (\<lambda>kv. VStr (fst kv)) kvs))
      | VStr str \<Rightarrow> Inr (map (\<lambda>c. VStr [c]) str)
      | _ \<Rightarrow> Inl TypeError)"

text \<open>
  \<^verbatim>\<open>fixes[key] if key in fixes else key\<close>: a reference is to a list or a dict, which
  cannot be hashed.
\<close>

definition st_fix_key :: "(string \<times> string) list \<Rightarrow> val \<Rightarrow> error + val" where
  "st_fix_key fixes key =
     (case key of
        VRef a \<Rightarrow> Inl TypeError
      | VStr s \<Rightarrow> (case map_of fixes s of Some r \<Rightarrow> Inr (VStr r) | None \<Rightarrow> Inr key)
      | _ \<Rightarrow> Inr key)"

text \<open>
  \<^verbatim>\<open>map_layer\<close> on the store: \<open>new_layer\<close> is the address of the list the function
  creates, and the loop writes through it.
\<close>

fun map_layer_loop_st ::
  "store \<Rightarrow> val \<Rightarrow> (string \<times> string) list \<Rightarrow> (int \<times> int) list \<Rightarrow> nat \<Rightarrow> error + store" where
  "map_layer_loop_st s layer fixes [] new_layer = Inr s"
| "map_layer_loop_st s layer fixes ((idx, new_idx) # rest) new_layer =
     (case st_subscript s layer idx of Inl e \<Rightarrow> Inl e | Inr k \<Rightarrow>
      if k = VStr ''KC_NO'' then map_layer_loop_st s layer fixes rest new_layer
      else
        case st_subscript s layer idx of Inl e \<Rightarrow> Inl e | Inr key \<Rightarrow>
        case st_fix_key fixes key of Inl e \<Rightarrow> Inl e | Inr v \<Rightarrow>
        case st_setitem s new_layer new_idx v of Inl e \<Rightarrow> Inl e | Inr s' \<Rightarrow>
        map_layer_loop_st s' layer fixes rest new_layer)"

definition map_layer_st ::
  "store \<Rightarrow> val \<Rightarrow> nat \<Rightarrow> (int \<times> int) list \<Rightarrow> (string \<times> string) list \<Rightarrow>
   error + val \<times> store" where
  "map_layer_st s layer layer_size mapping fixes =
     (case st_alloc s (OList (replicate layer_size (VStr ''KC_NO''))) of (new_layer, s1) \<Rightarrow>
      case map_layer_loop_st s1 layer fixes mapping new_layer of Inl e \<Rightarrow> Inl e | Inr s2 \<Rightarrow>
      Inr (VRef new_layer, s2))"

text \<open>
  The list comprehension of \<^verbatim>\<open>_map_config\<close>. Python walks the list object
  \<^verbatim>\<open>config["layers"]\<close> while the loop runs; the model walks the elements the list has
  when the loop starts.
\<close>

fun map_layers_st ::
  "store \<Rightarrow> val list \<Rightarrow> nat \<Rightarrow> (int \<times> int) list \<Rightarrow> (string \<times> string) list \<Rightarrow>
   error + val list \<times> store" where
  "map_layers_st s [] layer_size mapping fixes = Inr ([], s)"
| "map_layers_st s (layer # rest) layer_size mapping fixes =
     (case map_layer_st s layer layer_size mapping fixes of Inl e \<Rightarrow> Inl e | Inr (l, s1) \<Rightarrow>
      case map_layers_st s1 rest layer_size mapping fixes of Inl e \<Rightarrow> Inl e | Inr (ls, s2) \<Rightarrow>
      Inr (l # ls, s2))"

text \<open>
  \<^verbatim>\<open>_map_config\<close> on the store: \<open>config\<close> is the address of the caller's dict, the
  result is the address of the new one.
\<close>

definition priv_map_config_st ::
  "store \<Rightarrow> nat \<Rightarrow> (string \<times> val) list \<Rightarrow> nat \<Rightarrow> (int \<times> int) list \<Rightarrow>
   (string \<times> string) list \<Rightarrow> error + nat \<times> store" where
  "priv_map_config_st s config keyboard_info layer_size mapping fixes =
     (case st_copy s config of Inl e \<Rightarrow> Inl e | Inr (new_config, s1) \<Rightarrow>
      case st_dict_update s1 new_config keyboard_info of Inl e \<Rightarrow> Inl e | Inr s2 \<Rightarrow>
      case st_dict_getitem s2 config ''layers'' of Inl e \<Rightarrow> Inl e | Inr layers \<Rightarrow>
      case st_iter s2 layers of Inl e \<Rightarrow> Inl e | Inr ls \<Rightarrow>
      case map_layers_st s2 ls layer_size mapping fixes of Inl e \<Rightarrow> Inl e
      | Inr (new_layers, s3) \<Rightarrow>
      case st_alloc s3 (OList new_layers) of (new_layers_list, s4) \<Rightarrow>
      case st_dict_update s4 new_config [(''layers'', VRef new_layers_list)] of
        Inl e \<Rightarrow> Inl e
      | Inr s5 \<Rightarrow> Inr (new_config, s5))"

text \<open>
  The values of the two profile dicts are a string and an integer, which stand for
  themselves on the store.
\<close>

fun atom :: "json \<Rightarrow> val" where
  "atom (JStr s) = VStr s"
| "atom (JInt n) = VInt n"
| "atom (JBool b) = VBool b"
| "atom _ = VNull"

definition map_config_st :: "store \<Rightarrow> nat \<Rightarrow> string \<Rightarrow> error + nat \<times> store" where
  "map_config_st s config keyboard =
     (let is_keychron = (keyboard = ''KEYCHRON'');
          keyboard_info = (if is_keychron then GMMK_INFO else KEYCHRON_INFO);
          layer_size = (if is_keychron then length GMMK_LAYER else length KEYCHRON_LAYER);
          fixes = (if is_keychron then KEYCHRON_FIXES else GMMK_FIXES);
          from_layer = (if is_keychron then KEYCHRON_LAYER else GMMK_LAYER);
          to_layer = (if is_keychron then GMMK_LAYER else KEYCHRON_LAYER);
          mapping = get_mapping from_layer to_layer
      in priv_map_config_st s config (map (\<lambda>kv. (fst kv, atom (snd kv))) keyboard_info)
           layer_size mapping fixes)"

subsection \<open>Notions used in the statements\<close>

text \<open>
  The values Python can hash, and so look up in a dict: everything \<^verbatim>\<open>json.load\<close>
  produces except lists and dicts. Key codes are strings, hence hashable.
\<close>

fun hashable :: "json \<Rightarrow> bool" where
  "hashable (JArr xs) = False"
| "hashable (JObj kvs) = False"
| "hashable _ = True"

section \<open>Properties\<close>

subsection \<open>Detection\<close>

lemma py_eq_JInt [simp]: "py_eq (JInt m) (JInt n) \<longleftrightarrow> m = n"
  by (simp add: py_eq_def)

lemma py_eq_JStr [simp]: "py_eq x (JStr s) \<longleftrightarrow> x = JStr s"
  by (cases x) (simp_all add: py_eq_def)

lemma py_eq_big_int: "n \<noteq> 0 \<Longrightarrow> n \<noteq> 1 \<Longrightarrow> py_eq x (JInt n) \<longleftrightarrow> x = JInt n"
  by (cases x) (auto simp: py_eq_def)

lemma dict_get_KEYCHRON_id:
  "dict_get KEYCHRON_INFO ''vendorProductId'' = Inr (JInt 875824656)"
  by (simp add: dict_get_def KEYCHRON_INFO_def)

lemma dict_get_GMMK_id:
  "dict_get GMMK_INFO ''vendorProductId'' = Inr (JInt 839864388)"
  by (simp add: dict_get_def GMMK_INFO_def)

lemma detect_keyboard_present:
  assumes "dict_get config ''vendorProductId'' = Inr v"
  shows "detect_keyboard config =
           Inr (if v = JInt 875824656 then Some ''KEYCHRON''
                else if v = JInt 839864388 then Some ''GMMK'' else None)"
  using assms
  by (simp add: detect_keyboard_def dict_get_KEYCHRON_id dict_get_GMMK_id py_eq_big_int)

text \<open>
  Claim C4. For every configuration that has a \<^verbatim>\<open>vendorProductId\<close> field with value
  \<open>v\<close>, \<open>detect_keyboard\<close> returns \<^verbatim>\<open>"KEYCHRON"\<close> exactly when \<open>v\<close> is 875824656,
  returns \<^verbatim>\<open>"GMMK"\<close> exactly when \<open>v\<close> is 839864388, and for every other integer
  returns \<^verbatim>\<open>None\<close> without raising.
\<close>

theorem detect_keyboard_iff:
  assumes "dict_get config ''vendorProductId'' = Inr v"
  shows "(detect_keyboard config = Inr (Some ''KEYCHRON'') \<longleftrightarrow> v = JInt 875824656)
       \<and> (detect_keyboard config = Inr (Some ''GMMK'') \<longleftrightarrow> v = JInt 839864388)
       \<and> (\<forall>n. v = JInt n \<and> n \<noteq> 875824656 \<and> n \<noteq> 839864388
              \<longrightarrow> detect_keyboard config = Inr None)"
  by (simp add: detect_keyboard_present [OF assms])

theorem detect_keyboard_iff_witness:
  "dict_get [(''vendorProductId'', JInt 1), (''layers'', JArr [])] ''vendorProductId''
     = Inr (JInt 1)
   \<and> detect_keyboard [(''vendorProductId'', JInt 1), (''layers'', JArr [])] = Inr None
   \<and> detect_keyboard [(''vendorProductId'', JInt 1), (''layers'', JArr [])]
       \<noteq> Inr (Some ''KEYCHRON'')
   \<and> detect_keyboard [(''vendorProductId'', JInt 1), (''layers'', JArr [])]
       \<noteq> Inr (Some ''GMMK'')"
proof -
  have h: "dict_get [(''vendorProductId'', JInt 1), (''layers'', JArr [])] ''vendorProductId''
             = Inr (JInt 1)"
    by (simp add: dict_get_def)
  show ?thesis
    using h detect_keyboard_iff [OF h] by simp
qed

subsection \<open>The index mapping\<close>

lemma list_index_Some:
  "list_index xs x = Some j \<Longrightarrow>
     0 \<le> j \<and> nat j < length xs \<and> xs ! nat j = x \<and> (\<forall>k<nat j. xs ! k \<noteq> x)"
proof (induction xs arbitrary: j)
  case Nil
  then show ?case by simp
next
  case (Cons y ys)
  show ?case
  proof (cases "y = x")
    case True
    with Cons.prems show ?thesis by simp
  next
    case False
    with Cons.prems obtain j' where j': "list_index ys x = Some j'" "j = j' + 1"
      by (auto split: option.splits)
    from Cons.IH [OF j'(1)] have ih: "0 \<le> j'" "nat j' < length ys" "ys ! nat j' = x"
      "\<forall>k<nat j'. ys ! k \<noteq> x" by simp_all
    have n: "nat j = Suc (nat j')" using j'(2) ih(1) by simp
    show ?thesis
      using ih False unfolding n by (auto simp: j'(2) nth_Cons split: nat.splits)
  qed
qed

lemma list_index_None: "list_index xs x = None \<longleftrightarrow> x \<notin> set xs"
  by (induction xs) (auto split: option.splits)

lemma map_of_get_mapping_loop:
  "map_of (get_mapping_loop ps new acc) k =
     (case map_of ps k of
        None \<Rightarrow> map_of acc k
      | Some key \<Rightarrow>
          if key = ''KC_NO'' then map_of acc k
          else (case list_index new key of None \<Rightarrow> map_of acc k | Some j \<Rightarrow> Some j))"
  if "distinct (map fst ps)"
  using that
proof (induction ps arbitrary: acc)
  case Nil
  then show ?case by simp
next
  case (Cons p ps)
  obtain i key where p: "p = (i, key)" by (cases p)
  from Cons.prems have d: "distinct (map fst ps)" and ni: "i \<notin> fst ` set ps"
    by (simp_all add: p)
  from ni have mi: "map_of ps i = None" by (simp add: map_of_eq_None_iff)
  show ?case
    using Cons.IH [OF d] mi
    by (auto simp: p update_conv' split: option.splits)
qed

lemma set_update_subset: "set (AList.update k v al) \<subseteq> insert (k, v) (set al)"
  by (induction al) auto

lemma set_get_mapping_loop:
  "(a, b) \<in> set (get_mapping_loop ps new acc) \<Longrightarrow>
     (a, b) \<in> set acc \<or> (\<exists>key. list_index new key = Some b)"
proof (induction ps arbitrary: acc)
  case Nil
  then show ?case by simp
next
  case (Cons p ps)
  obtain i key where p: "p = (i, key)" by (cases p)
  show ?case
  proof (cases "key = ''KC_NO'' \<or> list_index new key = None")
    case True
    then have "get_mapping_loop (p # ps) new acc = get_mapping_loop ps new acc"
      by (auto simp: p)
    with Cons.prems have "(a, b) \<in> set (get_mapping_loop ps new acc)" by simp
    then show ?thesis by (rule Cons.IH)
  next
    case False
    then obtain j where j: "list_index new key = Some j" by auto
    with False
    have "get_mapping_loop (p # ps) new acc = get_mapping_loop ps new (AList.update i j acc)"
      by (simp add: p)
    with Cons.prems have "(a, b) \<in> set (get_mapping_loop ps new (AList.update i j acc))"
      by simp
    then have "(a, b) \<in> set (AList.update i j acc) \<or> (\<exists>key. list_index new key = Some b)"
      by (rule Cons.IH)
    then show ?thesis
    proof
      assume "(a, b) \<in> set (AList.update i j acc)"
      with set_update_subset [of i j acc] have "(a, b) = (i, j) \<or> (a, b) \<in> set acc"
        by blast
      with j show ?thesis by blast
    next
      assume "\<exists>key. list_index new key = Some b"
      then show ?thesis ..
    qed
  qed
qed

lemma map_of_py_enumerate:
  "map_of (py_enumerate xs) k = (if 0 \<le> k \<and> nat k < length xs then Some (xs ! nat k) else None)"
proof (cases "0 \<le> k \<and> nat k < length xs")
  case True
  have "map_of (zip (map int [0..<length xs]) xs) (map int [0..<length xs] ! nat k) = Some (xs ! nat k)"
    by (rule map_of_zip_nth) (use True in \<open>simp_all add: distinct_map\<close>)
  with True show ?thesis by (simp add: py_enumerate_def)
next
  case False
  then have "k \<notin> set (map int [0..<length xs])" by auto
  then have "map_of (zip (map int [0..<length xs]) xs) k = None"
    by (subst map_of_zip_is_None) simp_all
  with False show ?thesis by (simp only: py_enumerate_def if_False)
qed

lemma distinct_py_enumerate: "distinct (map fst (py_enumerate xs))"
  by (simp add: py_enumerate_def distinct_map)

text \<open>
  Claim C1. For all layouts \<open>old\<close> and \<open>new\<close> and every position \<open>i\<close> of \<open>old\<close>
  whose token is not \<^verbatim>\<open>"KC_NO"\<close>: when the token occurs in \<open>new\<close>, \<open>get_mapping\<close>
  maps \<open>i\<close> to the first position \<open>j\<close> of \<open>new\<close> that holds it; when it does not occur,
  \<open>i\<close> is not a key of the mapping; and every value of the mapping is an index into
  \<open>new\<close>.
\<close>

theorem get_mapping_first_match:
  assumes "i < length old" and "old ! i \<noteq> ''KC_NO''"
  shows "(old ! i \<in> set new \<longrightarrow>
            (\<exists>j. map_of (get_mapping old new) (int i) = Some (int j) \<and> j < length new
                 \<and> new ! j = old ! i \<and> (\<forall>k<j. new ! k \<noteq> old ! i)))
       \<and> (old ! i \<notin> set new \<longrightarrow> map_of (get_mapping old new) (int i) = None)
       \<and> (\<forall>(a, b) \<in> set (get_mapping old new). 0 \<le> b \<and> b < int (length new))"
proof -
  have m: "map_of (get_mapping old new) (int i) = list_index new (old ! i)"
    using assms
    by (simp add: get_mapping_def map_of_get_mapping_loop distinct_py_enumerate
        map_of_py_enumerate split: option.splits)
  have found: "\<exists>j. map_of (get_mapping old new) (int i) = Some (int j) \<and> j < length new
                 \<and> new ! j = old ! i \<and> (\<forall>k<j. new ! k \<noteq> old ! i)"
    if "old ! i \<in> set new"
  proof -
    from that obtain j where j: "list_index new (old ! i) = Some j"
      using list_index_None [of new "old ! i"] by (cases "list_index new (old ! i)") auto
    from list_index_Some [OF j] have "0 \<le> j" "nat j < length new" "new ! nat j = old ! i"
      "\<forall>k<nat j. new ! k \<noteq> old ! i" by simp_all
    moreover from \<open>0 \<le> j\<close> have "map_of (get_mapping old new) (int i) = Some (int (nat j))"
      by (simp add: m j)
    ultimately show ?thesis by blast
  qed
  have absent: "map_of (get_mapping old new) (int i) = None" if "old ! i \<notin> set new"
    using that by (simp add: m list_index_None)
  have bounds: "0 \<le> b \<and> b < int (length new)" if "(a, b) \<in> set (get_mapping old new)" for a b
  proof -
    from that obtain key where "list_index new key = Some b"
      using set_get_mapping_loop [of a b "py_enumerate old" new "[]"]
      by (auto simp: get_mapping_def)
    from list_index_Some [OF this] show ?thesis by auto
  qed
  from found absent bounds show ?thesis by blast
qed

theorem get_mapping_first_match_witness:
  "(0::nat) < length [''KC_A'', ''KC_NO'', ''KC_DEL'', ''KC_B'']
   \<and> [''KC_A'', ''KC_NO'', ''KC_DEL'', ''KC_B''] ! 0 \<noteq> ''KC_NO''
   \<and> [''KC_A'', ''KC_NO'', ''KC_DEL'', ''KC_B''] ! 0 \<in> set [''KC_B'', ''KC_A'', ''KC_NO'', ''KC_A'']
   \<and> (\<exists>j. map_of (get_mapping [''KC_A'', ''KC_NO'', ''KC_DEL'', ''KC_B'']
                     [''KC_B'', ''KC_A'', ''KC_NO'', ''KC_A'']) (int 0) = Some (int j)
          \<and> j < length [''KC_B'', ''KC_A'', ''KC_NO'', ''KC_A'']
          \<and> [''KC_B'', ''KC_A'', ''KC_NO'', ''KC_A''] ! j = [''KC_A'', ''KC_NO'', ''KC_DEL'', ''KC_B''] ! 0
          \<and> (\<forall>k<j. [''KC_B'', ''KC_A'', ''KC_NO'', ''KC_A''] ! k
                      \<noteq> [''KC_A'', ''KC_NO'', ''KC_DEL'', ''KC_B''] ! 0))"
proof -
  let ?old = "[''KC_A'', ''KC_NO'', ''KC_DEL'', ''KC_B'']"
  let ?new = "[''KC_B'', ''KC_A'', ''KC_NO'', ''KC_A'']"
  have h1: "(0::nat) < length ?old" by simp
  have h2: "?old ! 0 \<noteq> ''KC_NO''" by simp
  have h3: "?old ! 0 \<in> set ?new" by simp
  from get_mapping_first_match [OF h1 h2, of ?new] h3
  have "\<exists>j. map_of (get_mapping ?old ?new) (int 0) = Some (int j) \<and> j < length ?new
          \<and> ?new ! j = ?old ! 0 \<and> (\<forall>k<j. ?new ! k \<noteq> ?old ! 0)"
    by blast
  with h1 h2 h3 show ?thesis by blast
qed

lemma distinct_get_mapping_loop:
  "distinct (map fst acc) \<Longrightarrow> distinct (map fst (get_mapping_loop ps new acc))"
proof (induction ps arbitrary: acc)
  case Nil
  then show ?case by simp
next
  case (Cons p ps)
  obtain i key where p: "p = (i, key)" by (cases p)
  show ?case
  proof (cases "list_index new key")
    case None
    with Cons show ?thesis by (simp add: p)
  next
    case (Some j)
    from Cons.prems have "distinct (map fst (AList.update i j acc))"
      by (rule distinct_update)
    from Cons.IH [OF this] Cons.IH [OF Cons.prems] Some show ?thesis by (simp add: p)
  qed
qed

lemma distinct_get_mapping: "distinct (map fst (get_mapping old new))"
  by (simp add: get_mapping_def distinct_get_mapping_loop)

lemma map_of_get_mapping:
  "map_of (get_mapping old new) a =
     (if 0 \<le> a \<and> nat a < length old \<and> old ! nat a \<noteq> ''KC_NO''
      then list_index new (old ! nat a) else None)"
  by (simp add: get_mapping_def map_of_get_mapping_loop distinct_py_enumerate
      map_of_py_enumerate split: option.splits)

lemma get_mapping_member:
  "(a, b) \<in> set (get_mapping old new) \<longleftrightarrow>
     0 \<le> a \<and> nat a < length old \<and> old ! nat a \<noteq> ''KC_NO''
     \<and> list_index new (old ! nat a) = Some b"
proof -
  have "(a, b) \<in> set (get_mapping old new) \<longleftrightarrow> map_of (get_mapping old new) a = Some b"
    using distinct_get_mapping [of old new] by simp
  then show ?thesis by (simp add: map_of_get_mapping)
qed

lemma distinct_filter_nth_eq:
  "distinct (filter P xs) \<Longrightarrow> i < length xs \<Longrightarrow> j < length xs \<Longrightarrow> P (xs ! i) \<Longrightarrow>
   xs ! i = xs ! j \<Longrightarrow> i = j"
proof (induction xs arbitrary: i j)
  case Nil
  then show ?case by simp
next
  case (Cons x xs)
  show ?case
  proof (cases i)
    case 0
    show ?thesis
    proof (cases j)
      case 0
      with \<open>i = 0\<close> show ?thesis by simp
    next
      case (Suc j')
      with Cons.prems 0 have "P x" "x = xs ! j'" "j' < length xs" by simp_all
      then have "x \<in> set (filter P xs)" by auto
      with Cons.prems(1) \<open>P x\<close> show ?thesis by simp
    qed
  next
    case (Suc i')
    show ?thesis
    proof (cases j)
      case 0
      with Cons.prems Suc have "P x" "x = xs ! i'" "i' < length xs" by simp_all
      then have "x \<in> set (filter P xs)" by auto
      with Cons.prems(1) \<open>P x\<close> show ?thesis by simp
    next
      case j: (Suc j')
      from Cons.prems(1) have "distinct (filter P xs)" by (simp split: if_splits)
      from Cons.IH [OF this, of i' j'] Cons.prems Suc j show ?thesis by simp
    qed
  qed
qed

lemma get_mapping_injective:
  assumes "distinct (filter (\<lambda>k. k \<noteq> ''KC_NO'') old)"
  shows "distinct (map snd (get_mapping old new))"
proof -
  have "distinct (get_mapping old new)"
    using distinct_get_mapping [of old new] by (simp add: distinct_map)
  moreover have "inj_on snd (set (get_mapping old new))"
  proof (rule inj_onI)
    fix x y
    assume x: "x \<in> set (get_mapping old new)" and y: "y \<in> set (get_mapping old new)"
      and e: "snd x = snd y"
    obtain a b where xab: "x = (a, b)" by (cases x)
    with e obtain a' where yab: "y = (a', b)" by (cases y) simp
    from x xab have xa: "0 \<le> a" "nat a < length old" "old ! nat a \<noteq> ''KC_NO''"
      "list_index new (old ! nat a) = Some b" by (simp_all add: get_mapping_member)
    from y yab have ya: "0 \<le> a'" "nat a' < length old" "old ! nat a' \<noteq> ''KC_NO''"
      "list_index new (old ! nat a') = Some b" by (simp_all add: get_mapping_member)
    from list_index_Some [OF xa(4)] list_index_Some [OF ya(4)]
    have "old ! nat a = old ! nat a'" by simp
    from distinct_filter_nth_eq [OF assms xa(2) ya(2) xa(3) this] xa(1) ya(1)
    have "a = a'" by simp
    with xab yab show "x = y" by simp
  qed
  ultimately show ?thesis by (simp add: distinct_map)
qed

lemma get_mapping_in_range:
  "\<forall>(i, j) \<in> set (get_mapping old new).
     0 \<le> i \<and> i < int (length old) \<and> 0 \<le> j \<and> j < int (length new)"
proof (clarify)
  fix i j
  assume "(i, j) \<in> set (get_mapping old new)"
  then have "0 \<le> i" "nat i < length old" "list_index new (old ! nat i) = Some j"
    by (simp_all add: get_mapping_member)
  with list_index_Some [of new "old ! nat i" j]
  show "0 \<le> i \<and> i < int (length old) \<and> 0 \<le> j \<and> j < int (length new)" by auto
qed

subsection \<open>The loop of \<open>map_layer\<close>\<close>

lemma list_position_less: "list_position n i = Some p \<Longrightarrow> p < n"
  by (auto simp: list_position_def split: if_splits)

lemma list_position_nonneg:
  "0 \<le> i \<Longrightarrow> list_position n i = (if i < int n then Some (nat i) else None)"
  by (simp add: list_position_def)

lemma py_setitem_Inr:
  "py_setitem xs i v = Inr ys \<longleftrightarrow> (\<exists>p. list_position (length xs) i = Some p \<and> ys = xs[p := v])"
  by (auto simp: py_setitem_def split: option.splits)

lemma py_getitem_Inr:
  "py_getitem xs i = Inr x \<longleftrightarrow> (\<exists>p. list_position (length xs) i = Some p \<and> x = xs ! p)"
  by (auto simp: py_getitem_def split: option.splits)

lemma map_layer_step_None:
  "map_layer_step layer fixes i j = Inr None \<longleftrightarrow> py_subscript layer i = Inr (JStr ''KC_NO'')"
  by (cases "py_subscript layer i") (simp_all add: map_layer_step_def split: sum.splits)

lemma map_layer_step_Some:
  "map_layer_step layer fixes i j = Inr (Some (j', v)) \<longleftrightarrow>
     j' = j \<and> (\<exists>key. py_subscript layer i = Inr key \<and> key \<noteq> JStr ''KC_NO''
                   \<and> fix_key fixes key = Inr v)"
  by (cases "py_subscript layer i") (auto simp: map_layer_step_def split: sum.splits)

lemma map_layer_loop_Cons_Inr:
  "map_layer_loop layer fixes ((i, j) # m) nl = Inr out \<longleftrightarrow>
     (map_layer_step layer fixes i j = Inr None \<and> map_layer_loop layer fixes m nl = Inr out)
   \<or> (\<exists>v p. map_layer_step layer fixes i j = Inr (Some (j, v))
            \<and> list_position (length nl) j = Some p
            \<and> map_layer_loop layer fixes m (nl[p := v]) = Inr out)"
proof (cases "map_layer_step layer fixes i j")
  case (Inl e)
  then show ?thesis by simp
next
  case (Inr w)
  show ?thesis
  proof (cases w)
    case None
    with Inr show ?thesis by simp
  next
    case (Some jv)
    obtain j' v where jv: "jv = (j', v)" by (cases jv)
    from Inr Some jv have j': "j' = j" by (simp add: map_layer_step_Some)
    show ?thesis
      using Inr Some jv j'
      by (cases "list_position (length nl) j") (simp_all add: py_setitem_def)
  qed
qed

lemma map_layer_loop_length:
  "map_layer_loop layer fixes m nl = Inr out \<Longrightarrow> length out = length nl"
proof (induction m arbitrary: nl)
  case Nil
  then show ?case by simp
next
  case (Cons a m)
  obtain i j where a: "a = (i, j)" by (cases a)
  from Cons.prems Cons.IH show ?case
    unfolding a map_layer_loop_Cons_Inr by fastforce
qed

lemma map_layer_loop_untouched:
  "map_layer_loop layer fixes m nl = Inr out \<Longrightarrow>
   \<forall>(i, j) \<in> set m. list_position (length nl) j \<noteq> Some p
      \<or> map_layer_step layer fixes i j = Inr None \<Longrightarrow>
   out ! p = nl ! p"
proof (induction m arbitrary: nl)
  case Nil
  then show ?case by simp
next
  case (Cons a m)
  obtain i j where a: "a = (i, j)" by (cases a)
  from Cons.prems(2) have rest: "\<forall>(i, j) \<in> set m. list_position (length nl) j \<noteq> Some p
      \<or> map_layer_step layer fixes i j = Inr None"
    and head: "list_position (length nl) j \<noteq> Some p \<or> map_layer_step layer fixes i j = Inr None"
    by (simp_all add: a)
  from Cons.prems(1) [unfolded a map_layer_loop_Cons_Inr] show ?case
  proof (elim disjE conjE exE)
    assume "map_layer_loop layer fixes m nl = Inr out"
    from Cons.IH [OF this rest] show ?thesis .
  next
    fix v q
    assume s: "map_layer_step layer fixes i j = Inr (Some (j, v))"
      and q: "list_position (length nl) j = Some q"
      and l: "map_layer_loop layer fixes m (nl[q := v]) = Inr out"
    from head s q have "q \<noteq> p" by auto
    moreover from rest have "\<forall>(i, j) \<in> set m. list_position (length (nl[q := v])) j \<noteq> Some p
      \<or> map_layer_step layer fixes i j = Inr None" by simp
    from Cons.IH [OF l this] have "out ! p = nl[q := v] ! p" .
    ultimately show ?thesis by simp
  qed
qed

lemma map_layer_loop_nth_cases:
  "map_layer_loop layer fixes m nl = Inr out \<Longrightarrow>
   (out ! p = nl ! p
      \<and> (\<forall>(i, j) \<in> set m. list_position (length nl) j \<noteq> Some p
             \<or> map_layer_step layer fixes i j = Inr None))
   \<or> (\<exists>(i, j) \<in> set m. \<exists>v. map_layer_step layer fixes i j = Inr (Some (j, v))
          \<and> list_position (length nl) j = Some p \<and> out ! p = v)"
proof (induction m arbitrary: nl)
  case Nil
  then show ?case by simp
next
  case (Cons a m)
  obtain i j where a: "a = (i, j)" by (cases a)
  from Cons.prems(1) [unfolded a map_layer_loop_Cons_Inr] show ?case
  proof (elim disjE conjE exE)
    assume s: "map_layer_step layer fixes i j = Inr None"
      and l: "map_layer_loop layer fixes m nl = Inr out"
    from Cons.IH [OF l] s show ?thesis by (auto simp: a)
  next
    fix v q
    assume s: "map_layer_step layer fixes i j = Inr (Some (j, v))"
      and q: "list_position (length nl) j = Some q"
      and l: "map_layer_loop layer fixes m (nl[q := v]) = Inr out"
    from Cons.IH [OF l] consider
      (old) "out ! p = nl[q := v] ! p"
        "\<forall>(i, j) \<in> set m. list_position (length nl) j \<noteq> Some p
             \<or> map_layer_step layer fixes i j = Inr None"
    | (new) "\<exists>(i, j) \<in> set m. \<exists>v. map_layer_step layer fixes i j = Inr (Some (j, v))
          \<and> list_position (length nl) j = Some p \<and> out ! p = v"
      by auto
    then show ?thesis
    proof cases
      case old
      show ?thesis
      proof (cases "q = p")
        case True
        with old(1) q have "out ! p = v" by (simp add: list_position_less)
        with s q True show ?thesis by (auto simp: a)
      next
        case False
        with old q show ?thesis by (auto simp: a)
      qed
    next
      case new
      then show ?thesis by (auto simp: a)
    qed
  qed
qed

lemma map_layer_loop_written:
  "map_layer_loop layer fixes m nl = Inr out \<Longrightarrow>
   distinct (map snd m) \<Longrightarrow> \<forall>(i, j) \<in> set m. 0 \<le> j \<Longrightarrow>
   (i, j) \<in> set m \<Longrightarrow> map_layer_step layer fixes i j = Inr (Some (j, v)) \<Longrightarrow>
   out ! nat j = v"
proof (induction m arbitrary: nl)
  case Nil
  then show ?case by simp
next
  case (Cons a m)
  obtain i0 j0 where a: "a = (i0, j0)" by (cases a)
  from Cons.prems(2) have d: "distinct (map snd m)" and fresh: "j0 \<notin> snd ` set m"
    by (simp_all add: a)
  from Cons.prems(3) have nn: "\<forall>(i, j) \<in> set m. 0 \<le> j" and nn0: "0 \<le> j0"
    by (simp_all add: a)
  show ?case
  proof (cases "(i, j) = (i0, j0)")
    case True
    then have ij: "i0 = i" "j0 = j" by simp_all
    from Cons.prems(1) Cons.prems(5) obtain q where
      q: "list_position (length nl) j = Some q"
      and l: "map_layer_loop layer fixes m (nl[q := v]) = Inr out"
      unfolding a ij map_layer_loop_Cons_Inr by auto
    from q nn0 have qj: "q = nat j" "q < length nl"
      by (auto simp: ij list_position_nonneg split: if_splits)
    have "\<forall>(i', j') \<in> set m. list_position (length (nl[q := v])) j' \<noteq> Some q
        \<or> map_layer_step layer fixes i' j' = Inr None"
    proof (clarify)
      fix i' j'
      assume m: "(i', j') \<in> set m"
        and "map_layer_step layer fixes i' j' \<noteq> Inr None"
        and p: "list_position (length (nl[q := v])) j' = Some q"
      from m nn have "0 \<le> j'" by auto
      with p have "nat j' = q" by (auto simp: list_position_nonneg split: if_splits)
      with qj \<open>0 \<le> j'\<close> nn0 have "j' = j" by (simp add: ij)
      with m fresh show False by (force simp: ij)
    qed
    from map_layer_loop_untouched [OF l this] qj show ?thesis by simp
  next
    case False
    with Cons.prems(4) have im: "(i, j) \<in> set m" by (auto simp: a)
    from Cons.prems(1) obtain nl' where "map_layer_loop layer fixes m nl' = Inr out"
      unfolding a map_layer_loop_Cons_Inr by auto
    from Cons.IH [OF this d nn im Cons.prems(5)] show ?thesis .
  qed
qed

lemma map_layer_loop_steps_ok:
  "map_layer_loop layer fixes m nl = Inr out \<Longrightarrow> (i, j) \<in> set m \<Longrightarrow>
   map_layer_step layer fixes i j = Inr None
   \<or> (\<exists>v p. map_layer_step layer fixes i j = Inr (Some (j, v))
         \<and> list_position (length nl) j = Some p)"
proof (induction m arbitrary: nl)
  case Nil
  then show ?case by simp
next
  case (Cons a m)
  obtain i0 j0 where a: "a = (i0, j0)" by (cases a)
  show ?case
  proof (cases "(i, j) = (i0, j0)")
    case True
    with Cons.prems(1) show ?thesis
      unfolding a map_layer_loop_Cons_Inr by auto
  next
    case False
    with Cons.prems(2) have im: "(i, j) \<in> set m" by (auto simp: a)
    from Cons.prems(1) obtain nl' where l: "map_layer_loop layer fixes m nl' = Inr out"
      and n: "length nl' = length nl"
      unfolding a map_layer_loop_Cons_Inr by auto
    from Cons.IH [OF l im] n show ?thesis by simp
  qed
qed

lemma map_layer_loop_succeeds:
  "\<forall>(i, j) \<in> set m. map_layer_step layer fixes i j = Inr None
     \<or> (\<exists>v p. map_layer_step layer fixes i j = Inr (Some (j, v))
           \<and> list_position (length nl) j = Some p) \<Longrightarrow>
   \<exists>out. map_layer_loop layer fixes m nl = Inr out"
proof (induction m arbitrary: nl)
  case Nil
  then show ?case by simp
next
  case (Cons a m)
  obtain i j where a: "a = (i, j)" by (cases a)
  from Cons.prems have rest: "\<forall>(i, j) \<in> set m. map_layer_step layer fixes i j = Inr None
     \<or> (\<exists>v p. map_layer_step layer fixes i j = Inr (Some (j, v))
           \<and> list_position (length nl) j = Some p)"
    and head: "map_layer_step layer fixes i j = Inr None
     \<or> (\<exists>v p. map_layer_step layer fixes i j = Inr (Some (j, v))
           \<and> list_position (length nl) j = Some p)"
    by (simp_all add: a)
  from head show ?case
  proof (elim disjE exE conjE)
    assume s: "map_layer_step layer fixes i j = Inr None"
    from Cons.IH [OF rest] obtain out where "map_layer_loop layer fixes m nl = Inr out" ..
    with s show ?thesis unfolding a map_layer_loop_Cons_Inr by blast
  next
    fix v p
    assume s: "map_layer_step layer fixes i j = Inr (Some (j, v))"
      and p: "list_position (length nl) j = Some p"
    from rest have "\<forall>(i, j) \<in> set m. map_layer_step layer fixes i j = Inr None
     \<or> (\<exists>v' p'. map_layer_step layer fixes i j = Inr (Some (j, v'))
           \<and> list_position (length (nl[p := v])) j = Some p')" by simp
    from Cons.IH [OF this] obtain out
      where "map_layer_loop layer fixes m (nl[p := v]) = Inr out" ..
    with s p show ?thesis unfolding a map_layer_loop_Cons_Inr by blast
  qed
qed

lemma map_layer_loop_reorder:
  assumes perm: "mset m' = mset m"
    and dist: "distinct (map snd m)"
    and nonneg: "\<forall>(i, j) \<in> set m. 0 \<le> j"
    and run: "map_layer_loop layer fixes m nl = Inr out"
  shows "map_layer_loop layer fixes m' nl = Inr out"
proof -
  from perm have sets: "set m' = set m" by (rule mset_eq_setD)
  from perm have "mset (map snd m') = mset (map snd m)" by simp
  with dist have dist': "distinct (map snd m')"
    using mset_eq_imp_distinct_iff by blast
  from nonneg sets have nonneg': "\<forall>(i, j) \<in> set m'. 0 \<le> j" by simp
  have ok: "map_layer_step layer fixes i j = Inr None
      \<or> (\<exists>v p. map_layer_step layer fixes i j = Inr (Some (j, v))
            \<and> list_position (length nl) j = Some p)" if "(i, j) \<in> set m" for i j
    using run that by (rule map_layer_loop_steps_ok)
  with sets have "\<forall>(i, j) \<in> set m'. map_layer_step layer fixes i j = Inr None
      \<or> (\<exists>v p. map_layer_step layer fixes i j = Inr (Some (j, v))
            \<and> list_position (length nl) j = Some p)" by auto
  then obtain out' where run': "map_layer_loop layer fixes m' nl = Inr out'"
    using map_layer_loop_succeeds by blast
  have "out' = out"
  proof (rule nth_equalityI)
    show "length out' = length out"
      using map_layer_loop_length [OF run] map_layer_loop_length [OF run'] by simp
  next
    fix p
    assume "p < length out'"
    show "out' ! p = out ! p"
    proof (cases "\<exists>i j v. (i, j) \<in> set m \<and> map_layer_step layer fixes i j = Inr (Some (j, v))
        \<and> list_position (length nl) j = Some p")
      case True
      then obtain i j v where ij: "(i, j) \<in> set m"
        and s: "map_layer_step layer fixes i j = Inr (Some (j, v))"
        and p: "list_position (length nl) j = Some p" by blast
      from ij nonneg have "0 \<le> j" by auto
      with p have pj: "p = nat j" by (auto simp: list_position_nonneg split: if_splits)
      from ij sets have ij': "(i, j) \<in> set m'" by simp
      from map_layer_loop_written [OF run dist nonneg ij s]
        map_layer_loop_written [OF run' dist' nonneg' ij' s]
      show ?thesis by (simp add: pj)
    next
      case False
      with ok have "\<forall>(i, j) \<in> set m. list_position (length nl) j \<noteq> Some p
          \<or> map_layer_step layer fixes i j = Inr None" by blast
      moreover from this sets have "\<forall>(i, j) \<in> set m'. list_position (length nl) j \<noteq> Some p
          \<or> map_layer_step layer fixes i j = Inr None" by simp
      ultimately show ?thesis
        using map_layer_loop_untouched [OF run] map_layer_loop_untouched [OF run'] by simp
    qed
  qed
  with run' show ?thesis by simp
qed

lemma fix_key_hashable: "hashable key \<Longrightarrow> \<exists>v. fix_key fixes key = Inr v"
  by (cases key) (simp_all add: fix_key_def split: option.splits)

lemma map_layer_step_JArr:
  assumes "list_position (length xs) i = Some p" and "hashable (xs ! p)"
  shows "map_layer_step (JArr xs) fixes i j = Inr None
     \<or> (\<exists>v. map_layer_step (JArr xs) fixes i j = Inr (Some (j, v)))"
proof -
  from assms(1) have sub: "py_subscript (JArr xs) i = Inr (xs ! p)"
    by (simp add: py_getitem_def)
  from fix_key_hashable [OF assms(2)] obtain v where "fix_key fixes (xs ! p) = Inr v" ..
  with sub show ?thesis
    unfolding map_layer_step_None map_layer_step_Some by auto
qed

lemma map_layer_succeeds:
  assumes elems: "\<forall>x \<in> set xs. hashable x"
    and range: "\<forall>(i, j) \<in> set mapping.
        0 \<le> i \<and> i < int (length xs) \<and> 0 \<le> j \<and> j < int layer_size"
  shows "\<exists>out. map_layer (JArr xs) layer_size mapping fixes = Inr out"
proof -
  have "map_layer_step (JArr xs) fixes i j = Inr None
      \<or> (\<exists>v p. map_layer_step (JArr xs) fixes i j = Inr (Some (j, v))
            \<and> list_position (length (replicate layer_size (JStr ''KC_NO''))) j = Some p)"
    if ij: "(i, j) \<in> set mapping" for i j
  proof -
    from range ij have r: "0 \<le> i" "i < int (length xs)" "0 \<le> j" "j < int layer_size"
      by auto
    then have pi: "list_position (length xs) i = Some (nat i)"
      and pj: "list_position layer_size j = Some (nat j)"
      by (simp_all add: list_position_nonneg)
    from r have "xs ! nat i \<in> set xs" by simp
    with elems have "hashable (xs ! nat i)" by blast
    from map_layer_step_JArr [OF pi this, of "fixes" j] pj show ?thesis by auto
  qed
  then have "\<forall>(i, j) \<in> set mapping. map_layer_step (JArr xs) fixes i j = Inr None
      \<or> (\<exists>v p. map_layer_step (JArr xs) fixes i j = Inr (Some (j, v))
            \<and> list_position (length (replicate layer_size (JStr ''KC_NO''))) j = Some p)"
    by blast
  from map_layer_loop_succeeds [OF this] show ?thesis by (simp add: map_layer_def)
qed

lemma map_layer_length_Inr:
  "map_layer layer layer_size mapping fixes = Inr out \<Longrightarrow> length out = layer_size"
  by (auto simp: map_layer_def dest: map_layer_loop_length)

text \<open>
  Claim C2, as amended. For every layer that is a list of hashable values (key codes are
  strings), every destination size and fixup table, and every index mapping whose source
  indices are positions of the layer and whose destination indices are positions below the
  destination size, \<open>map_layer\<close> returns a layer of exactly the destination size. Whenever
  \<open>map_layer\<close> returns at all, on any input, the result has that length. The claim as
  stated fails: a layer shorter than a source index of the mapping raises IndexError.
\<close>

theorem map_layer_length:
  assumes "\<forall>x \<in> set xs. hashable x"
    and "\<forall>(i, j) \<in> set mapping.
        0 \<le> i \<and> i < int (length xs) \<and> 0 \<le> j \<and> j < int layer_size"
  shows "(\<exists>out. map_layer (JArr xs) layer_size mapping fixes = Inr out
            \<and> length out = layer_size)
       \<and> (\<forall>layer' mapping' fixes' out'.
            map_layer layer' layer_size mapping' fixes' = Inr out'
              \<longrightarrow> length out' = layer_size)"
  using map_layer_succeeds [OF assms, of "fixes"] map_layer_length_Inr by blast

theorem map_layer_length_witness:
  "\<exists>out. map_layer (JArr (map JStr KEYCHRON_LAYER)) (length GMMK_LAYER)
            (get_mapping KEYCHRON_LAYER GMMK_LAYER) KEYCHRON_FIXES = Inr out
         \<and> length out = length GMMK_LAYER"
proof -
  have h1: "\<forall>x \<in> set (map JStr KEYCHRON_LAYER). hashable x" by auto
  have h2: "\<forall>(i, j) \<in> set (get_mapping KEYCHRON_LAYER GMMK_LAYER).
      0 \<le> i \<and> i < int (length (map JStr KEYCHRON_LAYER)) \<and> 0 \<le> j \<and> j < int (length GMMK_LAYER)"
    using get_mapping_in_range [of KEYCHRON_LAYER GMMK_LAYER] by simp
  from map_layer_length [OF h1 h2, of KEYCHRON_FIXES] show ?thesis by blast
qed

theorem map_layer_short_layer_counterexample:
  "length (take 90 KEYCHRON_LAYER) = 90
   \<and> map_layer (JArr (map JStr (take 90 KEYCHRON_LAYER))) (length GMMK_LAYER)
        (get_mapping KEYCHRON_LAYER GMMK_LAYER) KEYCHRON_FIXES = Inl IndexError"
  by code_simp

subsection \<open>The placeholder\<close>

lemma fix_key_cases:
  "fix_key fixes key = Inr v \<Longrightarrow>
     (\<exists>s r. key = JStr s \<and> map_of fixes s = Some r \<and> v = JStr r)
   \<or> (v = key \<and> (\<forall>s. key = JStr s \<longrightarrow> map_of fixes s = None))"
  by (cases key) (auto simp: fix_key_def split: option.splits)

lemma map_layer_nth_cases:
  assumes "map_layer layer n m fs = Inr out" and "p < n"
  shows "(out ! p = JStr ''KC_NO''
           \<and> (\<forall>(i, j) \<in> set m. list_position n j \<noteq> Some p
                 \<or> py_subscript layer i = Inr (JStr ''KC_NO'')))
       \<or> (\<exists>(i, j) \<in> set m. \<exists>key. py_subscript layer i = Inr key \<and> key \<noteq> JStr ''KC_NO''
              \<and> fix_key fs key = Inr (out ! p) \<and> list_position n j = Some p)"
  using map_layer_loop_nth_cases [OF assms(1) [unfolded map_layer_def], of p] assms(2)
  unfolding map_layer_step_None map_layer_step_Some
  by (simp add: case_prod_unfold) blast

text \<open>
  Claim C6, as amended. For every fixup table none of whose replacements is
  \<^verbatim>\<open>"KC_NO"\<close> (as in both tables of the program), every layer and every mapping: the
  value that a step of the loop of \<open>map_layer\<close> writes is never \<^verbatim>\<open>"KC_NO"\<close>, and a
  position of the result holds \<^verbatim>\<open>"KC_NO"\<close> only when every pair of the mapping that
  targets it read \<^verbatim>\<open>"KC_NO"\<close> from the layer (and so was skipped). The claim as stated,
  for every fixup table, fails for a table that has \<^verbatim>\<open>"KC_NO"\<close> as a replacement.
\<close>

theorem placeholder_never_written:
  assumes "''KC_NO'' \<notin> snd ` set fs"
  shows "(\<forall>i j j' v. map_layer_step layer fs i j = Inr (Some (j', v)) \<longrightarrow> v \<noteq> JStr ''KC_NO'')
       \<and> (\<forall>out p. map_layer layer layer_size mapping fs = Inr out \<and> p < layer_size
              \<and> out ! p = JStr ''KC_NO''
            \<longrightarrow> (\<forall>(i, j) \<in> set mapping. list_position layer_size j = Some p
                    \<longrightarrow> py_subscript layer i = Inr (JStr ''KC_NO'')))"
proof -
  have fixed: "v \<noteq> JStr ''KC_NO''" if "fix_key fs key = Inr v" "key \<noteq> JStr ''KC_NO''" for key v
  proof -
    from fix_key_cases [OF that(1)] show ?thesis
    proof (elim disjE exE conjE)
      fix s r
      assume "map_of fs s = Some r" "v = JStr r"
      then have "(s, r) \<in> set fs" by (simp add: map_of_SomeD)
      then have "snd (s, r) \<in> snd ` set fs" by (rule imageI)
      then have "r \<in> snd ` set fs" by simp
      with assms have "r \<noteq> ''KC_NO''" by blast
      with \<open>v = JStr r\<close> show ?thesis by simp
    next
      assume "v = key"
      with that(2) show ?thesis by simp
    qed
  qed
  have step: "v \<noteq> JStr ''KC_NO''" if "map_layer_step layer fs i j = Inr (Some (j', v))"
    for i j j' v
    using that fixed unfolding map_layer_step_Some by blast
  have final: "py_subscript layer i = Inr (JStr ''KC_NO'')"
    if run: "map_layer layer layer_size mapping fs = Inr out" and p: "p < layer_size"
      and hold: "out ! p = JStr ''KC_NO''" and ij: "(i, j) \<in> set mapping"
      and tgt: "list_position layer_size j = Some p" for out p i j
  proof -
    from map_layer_nth_cases [OF run p] show ?thesis
    proof (elim disjE conjE)
      assume "\<forall>(i, j) \<in> set mapping. list_position layer_size j \<noteq> Some p
                 \<or> py_subscript layer i = Inr (JStr ''KC_NO'')"
      with ij tgt show ?thesis by auto
    next
      assume "\<exists>(i, j) \<in> set mapping. \<exists>key. py_subscript layer i = Inr key
          \<and> key \<noteq> JStr ''KC_NO'' \<and> fix_key fs key = Inr (out ! p)
          \<and> list_position layer_size j = Some p"
      then obtain key where "key \<noteq> JStr ''KC_NO''" "fix_key fs key = Inr (out ! p)" by blast
      from fixed [OF this(2) this(1)] hold show ?thesis by simp
    qed
  qed
  from step final show ?thesis by blast
qed

theorem placeholder_never_written_witness:
  "''KC_NO'' \<notin> snd ` set KEYCHRON_FIXES
   \<and> map_layer_step (JArr [JStr ''CUSTOM(0)'']) KEYCHRON_FIXES 0 0 = Inr (Some (0, JStr ''KC_LALT''))
   \<and> JStr ''KC_LALT'' \<noteq> JStr ''KC_NO''"
proof -
  have h: "''KC_NO'' \<notin> snd ` set KEYCHRON_FIXES" by (simp add: KEYCHRON_FIXES_def)
  have s: "map_layer_step (JArr [JStr ''CUSTOM(0)'']) KEYCHRON_FIXES 0 0
      = Inr (Some (0, JStr ''KC_LALT''))"
    by (simp add: map_layer_step_def py_getitem_def list_position_def fix_key_def KEYCHRON_FIXES_def)
  from placeholder_never_written [OF h, of "JArr [JStr ''CUSTOM(0)'']" 0 "[]"] s
  have "JStr ''KC_LALT'' \<noteq> JStr ''KC_NO''" by blast
  with h s show ?thesis by blast
qed

theorem placeholder_written_by_fixup_counterexample:
  "map_layer_step (JArr [JStr ''CUSTOM(0)'']) [(''CUSTOM(0)'', ''KC_NO'')] 0 0
     = Inr (Some (0, JStr ''KC_NO''))
   \<and> map_layer (JArr [JStr ''CUSTOM(0)'']) 1 (get_mapping [''CUSTOM(0)''] [''CUSTOM(0)''])
        [(''CUSTOM(0)'', ''KC_NO'')] = Inr [JStr ''KC_NO'']"
  by code_simp

subsection \<open>Mapping a configuration\<close>

lemma map_of_dict_update: "map_of (dict_update d other) = map_of d ++ map_of (rev other)"
proof (induction other arbitrary: d)
  case Nil
  then show ?case by (simp add: dict_update_def)
next
  case (Cons kv other)
  obtain k v where kv: "kv = (k, v)" by (cases kv)
  have "dict_update d (kv # other) = dict_update (AList.update k v d) other"
    by (simp add: dict_update_def kv)
  then have "map_of (dict_update d (kv # other))
      = map_of (AList.update k v d) ++ map_of (rev other)"
    by (simp only: Cons.IH)
  also have "map_of (AList.update k v d) = (map_of d)(k \<mapsto> v)"
    by (rule update_conv')
  also have "(map_of d)(k \<mapsto> v) ++ map_of (rev other) = map_of d ++ map_of (rev (kv # other))"
    by (rule ext) (simp add: kv map_add_def split: option.splits)
  finally show ?case .
qed

lemma map_layers_Inr:
  "map_layers ls n m f = Inr nls \<Longrightarrow>
     list_all2 (\<lambda>l nl. \<exists>out. map_layer l n m f = Inr out \<and> nl = JArr out) ls nls"
proof (induction ls arbitrary: nls)
  case Nil
  then show ?case by simp
next
  case (Cons l ls)
  from Cons.prems obtain b zs where b: "map_layer l n m f = Inr b"
    and zs: "map_layers ls n m f = Inr zs" and nls: "nls = JArr b # zs"
    by (auto split: sum.splits)
  from Cons.IH [OF zs] b show ?case by (simp add: nls)
qed

lemma map_layers_succeeds:
  "\<forall>l \<in> set ls. \<exists>out. map_layer l n m f = Inr out \<Longrightarrow> \<exists>nls. map_layers ls n m f = Inr nls"
  by (induction ls) auto

lemma priv_map_config_Inr:
  assumes "dict_get config ''layers'' = Inr (JArr ls)"
    and "map_layers ls n m f = Inr nls"
  shows "priv_map_config config info n m f =
           Inr (dict_update (dict_update config info) [(''layers'', JArr nls)])"
  using assms by (simp add: priv_map_config_def)

lemma length_KEYCHRON_LAYER: "length KEYCHRON_LAYER = 96"
  by (simp add: KEYCHRON_LAYER_def)

lemma length_GMMK_LAYER: "length GMMK_LAYER = 88"
  by (simp add: GMMK_LAYER_def)

lemma map_config_KEYCHRON:
  "map_config config ''KEYCHRON'' =
     priv_map_config config GMMK_INFO 88 (get_mapping KEYCHRON_LAYER GMMK_LAYER) KEYCHRON_FIXES"
  by (simp add: map_config_def length_GMMK_LAYER)

lemma map_config_GMMK:
  "map_config config ''GMMK'' =
     priv_map_config config KEYCHRON_INFO 96 (get_mapping GMMK_LAYER KEYCHRON_LAYER) GMMK_FIXES"
  by (simp add: map_config_def length_KEYCHRON_LAYER)

lemma keychron_layer_maps:
  assumes "96 \<le> length xs" and "\<forall>x \<in> set xs. hashable x"
  shows "\<exists>out. map_layer (JArr xs) 88 (get_mapping KEYCHRON_LAYER GMMK_LAYER) fs = Inr out"
proof (rule map_layer_succeeds [OF assms(2)], clarify)
  fix i j
  assume "(i, j) \<in> set (get_mapping KEYCHRON_LAYER GMMK_LAYER)"
  with get_mapping_in_range [of KEYCHRON_LAYER GMMK_LAYER]
  have "0 \<le> i \<and> i < 96 \<and> 0 \<le> j \<and> j < 88"
    by (auto simp: length_KEYCHRON_LAYER length_GMMK_LAYER)
  with assms(1) show "0 \<le> i \<and> i < int (length xs) \<and> 0 \<le> j \<and> j < int 88" by simp
qed

text \<open>
  Claim C3, as amended. For every configuration whose \<^verbatim>\<open>vendorProductId\<close> is
  875824656 and whose layers are lists of at least 96 hashable values (the Keychron layout
  has 96 positions), \<open>detect_keyboard\<close> returns \<^verbatim>\<open>"KEYCHRON"\<close> and \<open>map_config\<close>
  returns a configuration with \<^verbatim>\<open>vendorProductId\<close> 839864388, \<^verbatim>\<open>name\<close>
  \<^verbatim>\<open>"GMMK Pro"\<close>, and as many layers as the input, each of length 88: the GMMK layout
  has 88 positions, not 87.
\<close>

theorem map_config_keychron_to_gmmk:
  assumes id: "dict_get config ''vendorProductId'' = Inr (JInt 875824656)"
    and layers: "dict_get config ''layers'' = Inr (JArr ls)"
    and cover: "\<forall>l \<in> set ls. \<exists>xs. l = JArr xs \<and> 96 \<le> length xs \<and> (\<forall>x \<in> set xs. hashable x)"
  shows "detect_keyboard config = Inr (Some ''KEYCHRON'')
       \<and> (\<exists>out nls. map_config config ''KEYCHRON'' = Inr out
            \<and> dict_get out ''vendorProductId'' = Inr (JInt 839864388)
            \<and> dict_get out ''name'' = Inr (JStr ''GMMK Pro'')
            \<and> dict_get out ''layers'' = Inr (JArr nls)
            \<and> length nls = length ls
            \<and> (\<forall>l \<in> set nls. \<exists>ys. l = JArr ys \<and> length ys = 88))"
proof -
  let ?m = "get_mapping KEYCHRON_LAYER GMMK_LAYER"
  have det: "detect_keyboard config = Inr (Some ''KEYCHRON'')"
    by (simp add: detect_keyboard_present [OF id])
  have "\<forall>l \<in> set ls. \<exists>out. map_layer l 88 ?m KEYCHRON_FIXES = Inr out"
  proof
    fix l assume "l \<in> set ls"
    with cover obtain xs where "l = JArr xs" "96 \<le> length xs" "\<forall>x \<in> set xs. hashable x"
      by blast
    with keychron_layer_maps [of xs KEYCHRON_FIXES]
    show "\<exists>out. map_layer l 88 ?m KEYCHRON_FIXES = Inr out" by simp
  qed
  then obtain nls where nls: "map_layers ls 88 ?m KEYCHRON_FIXES = Inr nls"
    using map_layers_succeeds by blast
  then have rel: "list_all2 (\<lambda>l nl. \<exists>out. map_layer l 88 ?m KEYCHRON_FIXES = Inr out
      \<and> nl = JArr out) ls nls"
    by (rule map_layers_Inr)
  define out where "out = dict_update (dict_update config GMMK_INFO) [(''layers'', JArr nls)]"
  have run: "map_config config ''KEYCHRON'' = Inr out"
    unfolding map_config_KEYCHRON out_def using layers nls by (rule priv_map_config_Inr)
  have f1: "dict_get out ''vendorProductId'' = Inr (JInt 839864388)"
    and f2: "dict_get out ''name'' = Inr (JStr ''GMMK Pro'')"
    and f3: "dict_get out ''layers'' = Inr (JArr nls)"
    by (simp_all add: out_def dict_get_def map_of_dict_update GMMK_INFO_def)
  from rel have len: "length nls = length ls" by (simp add: list_all2_lengthD)
  have each: "\<exists>ys. l = JArr ys \<and> length ys = 88" if "l \<in> set nls" for l
  proof -
    from that obtain k where k: "k < length nls" "l = nls ! k" by (auto simp: in_set_conv_nth)
    with rel len obtain ys where "map_layer (ls ! k) 88 ?m KEYCHRON_FIXES = Inr ys" "l = JArr ys"
      by (auto simp: list_all2_conv_all_nth)
    with map_layer_length_Inr show ?thesis by blast
  qed
  from det run f1 f2 f3 len each show ?thesis by blast
qed

theorem map_config_keychron_to_gmmk_witness:
  "detect_keyboard
     [(''vendorProductId'', JInt 875824656), (''name'', JStr ''Keyboard 81 Pro/Q1 Pro ANSI RGB Knob''),
      (''layers'', JArr [JArr (map JStr KEYCHRON_LAYER)])] = Inr (Some ''KEYCHRON'')
   \<and> (\<exists>out nls.
        map_config
          [(''vendorProductId'', JInt 875824656), (''name'', JStr ''Keyboard 81 Pro/Q1 Pro ANSI RGB Knob''),
           (''layers'', JArr [JArr (map JStr KEYCHRON_LAYER)])] ''KEYCHRON'' = Inr out
        \<and> dict_get out ''vendorProductId'' = Inr (JInt 839864388)
        \<and> dict_get out ''name'' = Inr (JStr ''GMMK Pro'')
        \<and> dict_get out ''layers'' = Inr (JArr nls)
        \<and> length nls = 1
        \<and> (\<forall>l \<in> set nls. \<exists>ys. l = JArr ys \<and> length ys = 88))"
proof -
  let ?c = "[(''vendorProductId'', JInt 875824656),
             (''name'', JStr ''Keyboard 81 Pro/Q1 Pro ANSI RGB Knob''),
             (''layers'', JArr [JArr (map JStr KEYCHRON_LAYER)])]"
  have h1: "dict_get ?c ''vendorProductId'' = Inr (JInt 875824656)"
    by (simp add: dict_get_def)
  have h2: "dict_get ?c ''layers'' = Inr (JArr [JArr (map JStr KEYCHRON_LAYER)])"
    by (simp add: dict_get_def)
  have "\<forall>x \<in> set (map JStr KEYCHRON_LAYER). hashable x" by auto
  then have h3: "\<forall>l \<in> set [JArr (map JStr KEYCHRON_LAYER)].
      \<exists>xs. l = JArr xs \<and> 96 \<le> length xs \<and> (\<forall>x \<in> set xs. hashable x)"
    by (simp add: length_KEYCHRON_LAYER)
  from map_config_keychron_to_gmmk [OF h1 h2 h3] show ?thesis by simp
qed

theorem map_config_layer_length_counterexample:
  "map_config
     [(''vendorProductId'', JInt 875824656), (''name'', JStr ''Keyboard 81 Pro/Q1 Pro ANSI RGB Knob''),
      (''layers'', JArr [JArr (map JStr KEYCHRON_LAYER)])] ''KEYCHRON''
   = Inr [(''vendorProductId'', JInt 839864388), (''name'', JStr ''GMMK Pro''),
          (''layers'', JArr [JArr (map JStr (GMMK_LAYER[53 := ''KC_NO'']))])]
   \<and> length (map JStr (GMMK_LAYER[53 := ''KC_NO''])) \<noteq> 87"
  by code_simp

subsection \<open>Fixups and the extra key of the GMMK\<close>

lemma distinct_KEYCHRON_LAYER: "distinct (filter (\<lambda>k. k \<noteq> ''KC_NO'') KEYCHRON_LAYER)"
  by code_simp

lemma distinct_GMMK_LAYER: "distinct (filter (\<lambda>k. k \<noteq> ''KC_NO'') GMMK_LAYER)"
  by code_simp

lemma gmmk_layer_maps:
  assumes "88 \<le> length xs" and "\<forall>x \<in> set xs. hashable x"
  shows "\<exists>out. map_layer (JArr xs) 96 (get_mapping GMMK_LAYER KEYCHRON_LAYER) fs = Inr out"
proof (rule map_layer_succeeds [OF assms(2)], clarify)
  fix i j
  assume "(i, j) \<in> set (get_mapping GMMK_LAYER KEYCHRON_LAYER)"
  with get_mapping_in_range [of GMMK_LAYER KEYCHRON_LAYER]
  have "0 \<le> i \<and> i < 88 \<and> 0 \<le> j \<and> j < 96"
    by (auto simp: length_KEYCHRON_LAYER length_GMMK_LAYER)
  with assms(1) show "0 \<le> i \<and> i < int (length xs) \<and> 0 \<le> j \<and> j < int 96" by simp
qed

lemma KEYCHRON_FIXES_cases:
  "map_of KEYCHRON_FIXES t = Some r \<longleftrightarrow>
     (t = ''CUSTOM(0)'' \<and> r = ''KC_LALT'') \<or> (t = ''CUSTOM(1)'' \<and> r = ''KC_RALT'')
     \<or> (t = ''CUSTOM(3)'' \<and> r = ''KC_RGUI'')"
  by (simp add: KEYCHRON_FIXES_def) blast

text \<open>
  Claim C5. For every Keychron layer (a list of at least 96 hashable values) and every
  token \<open>t\<close> that is a key of \<open>KEYCHRON_FIXES\<close> with replacement \<open>r\<close>: mapping the layer
  to GMMK succeeds, no position of the result holds \<open>t\<close>, and for every pair \<open>(i, j)\<close> of
  the index mapping with \<open>t\<close> at position \<open>i\<close> of the layer the result holds \<open>r\<close> at
  position \<open>j\<close>. The fixup table of the other keyboard, \<open>GMMK_FIXES\<close>, has no key.
\<close>

theorem keychron_fixups_applied:
  assumes len: "96 \<le> length xs" and elems: "\<forall>x \<in> set xs. hashable x"
    and key: "map_of KEYCHRON_FIXES t = Some r"
  shows "\<exists>out. map_layer (JArr xs) (length GMMK_LAYER) (get_mapping KEYCHRON_LAYER GMMK_LAYER)
                 KEYCHRON_FIXES = Inr out
           \<and> JStr t \<notin> set out
           \<and> (\<forall>(i, j) \<in> set (get_mapping KEYCHRON_LAYER GMMK_LAYER).
                 xs ! nat i = JStr t \<longrightarrow> out ! nat j = JStr r)
           \<and> dom (map_of GMMK_FIXES) = {}"
proof -
  let ?m = "get_mapping KEYCHRON_LAYER GMMK_LAYER"
  from keychron_layer_maps [OF len elems] obtain out
    where run: "map_layer (JArr xs) 88 ?m KEYCHRON_FIXES = Inr out" by blast
  have n: "length out = 88" using run by (rule map_layer_length_Inr)
  have range: "\<forall>(i, j) \<in> set ?m. 0 \<le> i \<and> i < 96 \<and> 0 \<le> j \<and> j < 88"
    using get_mapping_in_range [of KEYCHRON_LAYER GMMK_LAYER]
    by (simp add: length_KEYCHRON_LAYER length_GMMK_LAYER)
  have tne: "t \<noteq> ''KC_NO''" using key unfolding KEYCHRON_FIXES_cases by auto
  have not_key: "v \<noteq> JStr t" if "fix_key KEYCHRON_FIXES k = Inr v" for k v
  proof -
    from fix_key_cases [OF that] show ?thesis
    proof (elim disjE exE conjE)
      fix s r'
      assume "map_of KEYCHRON_FIXES s = Some r'" "v = JStr r'"
      with key show ?thesis unfolding KEYCHRON_FIXES_cases by auto
    next
      assume "v = k" "\<forall>s. k = JStr s \<longrightarrow> map_of KEYCHRON_FIXES s = None"
      with key show ?thesis by auto
    qed
  qed
  have absent: "JStr t \<notin> set out"
  proof
    assume "JStr t \<in> set out"
    then obtain p where p: "p < 88" "out ! p = JStr t" by (auto simp: in_set_conv_nth n)
    from map_layer_nth_cases [OF run p(1)] p(2) tne not_key show False by auto
  qed
  have written: "out ! nat j = JStr r" if ij: "(i, j) \<in> set ?m" and src: "xs ! nat i = JStr t" for i j
  proof -
    from range ij have r: "0 \<le> i" "i < 96" "0 \<le> j" by auto
    with len have "py_subscript (JArr xs) i = Inr (JStr t)"
      by (simp add: py_getitem_def list_position_nonneg src)
    moreover from key have "fix_key KEYCHRON_FIXES (JStr t) = Inr (JStr r)"
      by (simp add: fix_key_def)
    ultimately have step: "map_layer_step (JArr xs) KEYCHRON_FIXES i j = Inr (Some (j, JStr r))"
      using tne by (simp add: map_layer_step_Some)
    have "distinct (map snd ?m)"
      using distinct_KEYCHRON_LAYER by (rule get_mapping_injective)
    moreover from range have "\<forall>(i, j) \<in> set ?m. 0 \<le> j" by auto
    ultimately show ?thesis
      using map_layer_loop_written [OF run [unfolded map_layer_def] _ _ ij step] by blast
  qed
  have "dom (map_of GMMK_FIXES) = {}" by (simp add: GMMK_FIXES_def)
  with run absent written show ?thesis by (auto simp: length_GMMK_LAYER)
qed

lemma K82: "KEYCHRON_LAYER ! 82 = ''KC_LALT''"
  by (simp add: KEYCHRON_LAYER_def)

lemma K82_G75: "list_index GMMK_LAYER ''KC_LALT'' = Some 75"
  by code_simp

theorem keychron_fixups_applied_witness:
  "\<exists>out. map_layer (JArr (map JStr (KEYCHRON_LAYER[82 := ''CUSTOM(0)''])))
            (length GMMK_LAYER) (get_mapping KEYCHRON_LAYER GMMK_LAYER) KEYCHRON_FIXES = Inr out
         \<and> JStr ''CUSTOM(0)'' \<notin> set out
         \<and> out ! 75 = JStr ''KC_LALT''"
proof -
  let ?xs = "map JStr (KEYCHRON_LAYER[82 := ''CUSTOM(0)''])"
  have h1: "96 \<le> length ?xs" by (simp add: length_KEYCHRON_LAYER)
  have h2: "\<forall>x \<in> set ?xs. hashable x" by auto
  have h3: "map_of KEYCHRON_FIXES ''CUSTOM(0)'' = Some ''KC_LALT''"
    by (simp add: KEYCHRON_FIXES_def)
  have m: "(82, 75) \<in> set (get_mapping KEYCHRON_LAYER GMMK_LAYER)"
    by (simp add: get_mapping_member length_KEYCHRON_LAYER K82 K82_G75)
  have x: "?xs ! nat 82 = JStr ''CUSTOM(0)''" by (simp add: length_KEYCHRON_LAYER)
  from keychron_fixups_applied [OF h1 h2 h3] obtain out
    where "map_layer (JArr ?xs) (length GMMK_LAYER) (get_mapping KEYCHRON_LAYER GMMK_LAYER)
             KEYCHRON_FIXES = Inr out"
      and "JStr ''CUSTOM(0)'' \<notin> set out"
      and w: "\<forall>(i, j) \<in> set (get_mapping KEYCHRON_LAYER GMMK_LAYER).
                 ?xs ! nat i = JStr ''CUSTOM(0)'' \<longrightarrow> out ! nat j = JStr ''KC_LALT''"
    by blast
  moreover from w m x have "out ! 75 = JStr ''KC_LALT''" by fastforce
  ultimately show ?thesis by blast
qed

lemma GMMK_53: "GMMK_LAYER ! 53 = ''KC_DEL''"
  by (simp add: GMMK_LAYER_def)

lemma KC_DEL_not_keychron: "list_index KEYCHRON_LAYER ''KC_DEL'' = None"
  by code_simp

text \<open>
  Claim C8. For every GMMK layer (a list of at least 88 hashable values) that holds
  \<^verbatim>\<open>"KC_DEL"\<close> at position 53 and nowhere else, mapping the layer to Keychron succeeds
  and no position of the result holds \<^verbatim>\<open>"KC_DEL"\<close>.
\<close>

theorem gmmk_delete_key_dropped:
  assumes len: "88 \<le> length xs" and elems: "\<forall>x \<in> set xs. hashable x"
    and del: "\<forall>k < length xs. xs ! k = JStr ''KC_DEL'' \<longleftrightarrow> k = 53"
  shows "\<exists>out. map_layer (JArr xs) (length KEYCHRON_LAYER)
                 (get_mapping GMMK_LAYER KEYCHRON_LAYER) GMMK_FIXES = Inr out
           \<and> JStr ''KC_DEL'' \<notin> set out"
proof -
  let ?m = "get_mapping GMMK_LAYER KEYCHRON_LAYER"
  from gmmk_layer_maps [OF len elems] obtain out
    where run: "map_layer (JArr xs) 96 ?m GMMK_FIXES = Inr out" by blast
  have n: "length out = 96" using run by (rule map_layer_length_Inr)
  have absent: "JStr ''KC_DEL'' \<notin> set out"
  proof
    assume "JStr ''KC_DEL'' \<in> set out"
    then obtain p where p: "p < 96" "out ! p = JStr ''KC_DEL''" by (auto simp: in_set_conv_nth n)
    from map_layer_nth_cases [OF run p(1)] p(2) obtain i j key
      where ij: "(i, j) \<in> set ?m" and sub: "py_subscript (JArr xs) i = Inr key"
        and fk: "fix_key GMMK_FIXES key = Inr (JStr ''KC_DEL'')"
      by auto
    from fk have key: "key = JStr ''KC_DEL''"
      by (cases key) (simp_all add: fix_key_def GMMK_FIXES_def)
    from ij have i: "0 \<le> i" "nat i < 88" "list_index KEYCHRON_LAYER (GMMK_LAYER ! nat i) \<noteq> None"
      by (auto simp: get_mapping_member length_GMMK_LAYER)
    with len have "py_subscript (JArr xs) i = Inr (xs ! nat i)"
      by (simp add: py_getitem_def list_position_nonneg)
    with sub key have "xs ! nat i = JStr ''KC_DEL''" by simp
    with del i(2) len have "nat i = 53" by auto
    with i(3) show False by (simp add: GMMK_53 KC_DEL_not_keychron)
  qed
  with run show ?thesis by (auto simp: length_KEYCHRON_LAYER)
qed

theorem gmmk_delete_key_dropped_witness:
  "map JStr GMMK_LAYER ! 53 = JStr ''KC_DEL''
   \<and> (\<exists>out. map_layer (JArr (map JStr GMMK_LAYER)) (length KEYCHRON_LAYER)
              (get_mapping GMMK_LAYER KEYCHRON_LAYER) GMMK_FIXES = Inr out
           \<and> JStr ''KC_DEL'' \<notin> set out)"
proof -
  let ?xs = "map JStr GMMK_LAYER"
  have h1: "88 \<le> length ?xs" by (simp add: length_GMMK_LAYER)
  have h2: "\<forall>x \<in> set ?xs. hashable x" by auto
  have h3: "\<forall>k < length ?xs. ?xs ! k = JStr ''KC_DEL'' \<longleftrightarrow> k = 53"
  proof (intro allI impI iffI)
    fix k
    assume k: "k < length ?xs" and "?xs ! k = JStr ''KC_DEL''"
    then have "GMMK_LAYER ! k = GMMK_LAYER ! 53" by (simp add: GMMK_53)
    with distinct_filter_nth_eq [OF distinct_GMMK_LAYER, of k 53] k
    show "k = 53" by (simp add: length_GMMK_LAYER GMMK_53)
  next
    fix k :: nat
    assume "k = 53"
    then show "?xs ! k = JStr ''KC_DEL''" by (simp add: length_GMMK_LAYER GMMK_53)
  qed
  have "?xs ! 53 = JStr ''KC_DEL''" by (simp add: length_GMMK_LAYER GMMK_53)
  with gmmk_delete_key_dropped [OF h1 h2 h3] show ?thesis by blast
qed

subsection \<open>Round trip and injectivity\<close>

lemma fix_key_result_hashable: "fix_key fs key = Inr v \<Longrightarrow> hashable v"
  by (cases key) (auto simp: fix_key_def split: option.splits)

lemma map_layer_result_hashable:
  assumes "map_layer layer n m fs = Inr out"
  shows "\<forall>x \<in> set out. hashable x"
proof
  fix x
  assume "x \<in> set out"
  with map_layer_length_Inr [OF assms] obtain p where p: "p < n" "x = out ! p"
    by (auto simp: in_set_conv_nth)
  from map_layer_nth_cases [OF assms p(1)] show "hashable x"
    unfolding p(2) by (auto dest: fix_key_result_hashable)
qed

lemma KEYCHRON_14: "KEYCHRON_LAYER ! 14 = ''KC_NO''"
  by (simp add: KEYCHRON_LAYER_def)

lemma keychron_14_not_target:
  assumes "(i, j) \<in> set (get_mapping GMMK_LAYER KEYCHRON_LAYER)"
  shows "j \<noteq> 14"
proof
  assume j: "j = 14"
  from assms have ne: "GMMK_LAYER ! nat i \<noteq> ''KC_NO''"
    and idx: "list_index KEYCHRON_LAYER (GMMK_LAYER ! nat i) = Some j"
    by (simp_all add: get_mapping_member)
  from list_index_Some [OF idx] have "KEYCHRON_LAYER ! nat j = GMMK_LAYER ! nat i" by simp
  with ne show False by (simp add: j KEYCHRON_14)
qed

lemma keychron_round_trip_14:
  assumes len: "96 \<le> length xs" and elems: "\<forall>x \<in> set xs. hashable x"
  shows "\<exists>g k. map_layer (JArr xs) 88 (get_mapping KEYCHRON_LAYER GMMK_LAYER) KEYCHRON_FIXES = Inr g
           \<and> map_layer (JArr g) 96 (get_mapping GMMK_LAYER KEYCHRON_LAYER) GMMK_FIXES = Inr k
           \<and> k ! 14 = JStr ''KC_NO''"
proof -
  let ?kg = "get_mapping KEYCHRON_LAYER GMMK_LAYER" and ?gk = "get_mapping GMMK_LAYER KEYCHRON_LAYER"
  from keychron_layer_maps [OF len elems] obtain g
    where g: "map_layer (JArr xs) 88 ?kg KEYCHRON_FIXES = Inr g" by blast
  from map_layer_length_Inr [OF g] have "88 \<le> length g" by simp
  from gmmk_layer_maps [OF this map_layer_result_hashable [OF g]] obtain k
    where k: "map_layer (JArr g) 96 ?gk GMMK_FIXES = Inr k" by blast
  have "\<forall>(i, j) \<in> set ?gk. list_position (length (replicate 96 (JStr ''KC_NO''))) j \<noteq> Some 14
      \<or> map_layer_step (JArr g) GMMK_FIXES i j = Inr None"
  proof (clarify)
    fix i j
    assume ij: "(i, j) \<in> set ?gk"
      and "list_position (length (replicate 96 (JStr ''KC_NO''))) j = Some 14"
    moreover from ij get_mapping_in_range [of GMMK_LAYER KEYCHRON_LAYER] have "0 \<le> j" by auto
    ultimately have "j = 14" by (auto simp: list_position_nonneg split: if_splits)
    with keychron_14_not_target [OF ij] show False
      by simp
  qed
  from map_layer_loop_untouched [OF k [unfolded map_layer_def] this]
  have "k ! 14 = JStr ''KC_NO''" by simp
  with g k show ?thesis by blast
qed

lemma priv_map_config_single:
  assumes "dict_get config ''layers'' = Inr (JArr [l])" and "map_layer l n m f = Inr out"
  shows "priv_map_config config info n m f =
           Inr (dict_update (dict_update config info) [(''layers'', JArr [JArr out])])"
  using assms by (simp add: priv_map_config_def)

lemma dict_get_new_layers:
  "dict_get (dict_update (dict_update config info) [(''layers'', v)]) ''layers'' = Inr v"
  by (simp add: dict_get_def map_of_dict_update)

lemma dict_get_new_id_GMMK:
  "dict_get (dict_update (dict_update config GMMK_INFO) [(''layers'', v)]) ''vendorProductId''
     = Inr (JInt 839864388)"
  by (simp add: dict_get_def map_of_dict_update GMMK_INFO_def)

text \<open>
  Claim C9. The Keychron configuration whose one layer is the Keychron layout with
  \<^verbatim>\<open>"KC_DEL"\<close> at position 14 (a position the layout leaves unassigned) maps to a
  GMMK configuration, which maps back to a Keychron configuration whose layer holds
  \<^verbatim>\<open>"KC_NO"\<close> at position 14: the round trip is not the identity.
\<close>

theorem round_trip_not_identity:
  "\<exists>g k kl.
     map_config [(''vendorProductId'', JInt 875824656),
                 (''layers'', JArr [JArr (map JStr (KEYCHRON_LAYER[14 := ''KC_DEL'']))])]
       ''KEYCHRON'' = Inr g
   \<and> detect_keyboard g = Inr (Some ''GMMK'')
   \<and> map_config g ''GMMK'' = Inr k
   \<and> dict_get k ''layers'' = Inr (JArr [JArr kl])
   \<and> kl ! 14 = JStr ''KC_NO''
   \<and> map JStr (KEYCHRON_LAYER[14 := ''KC_DEL'']) ! 14 = JStr ''KC_DEL''
   \<and> kl \<noteq> map JStr (KEYCHRON_LAYER[14 := ''KC_DEL''])"
proof -
  let ?xs = "map JStr (KEYCHRON_LAYER[14 := ''KC_DEL''])"
  let ?c = "[(''vendorProductId'', JInt 875824656), (''layers'', JArr [JArr ?xs])]"
  let ?kg = "get_mapping KEYCHRON_LAYER GMMK_LAYER" and ?gk = "get_mapping GMMK_LAYER KEYCHRON_LAYER"
  have len: "96 \<le> length ?xs" by (simp add: length_KEYCHRON_LAYER)
  have elems: "\<forall>x \<in> set ?xs. hashable x" by auto
  from keychron_round_trip_14 [OF len elems] obtain gl kl
    where gl: "map_layer (JArr ?xs) 88 ?kg KEYCHRON_FIXES = Inr gl"
      and kl: "map_layer (JArr gl) 96 ?gk GMMK_FIXES = Inr kl"
      and k14: "kl ! 14 = JStr ''KC_NO''" by blast
  define g where "g = dict_update (dict_update ?c GMMK_INFO) [(''layers'', JArr [JArr gl])]"
  define k where "k = dict_update (dict_update g KEYCHRON_INFO) [(''layers'', JArr [JArr kl])]"
  have cl: "dict_get ?c ''layers'' = Inr (JArr [JArr ?xs])" by (simp add: dict_get_def)
  have run1: "map_config ?c ''KEYCHRON'' = Inr g"
    unfolding map_config_KEYCHRON g_def using cl gl by (rule priv_map_config_single)
  have gl': "dict_get g ''layers'' = Inr (JArr [JArr gl])"
    unfolding g_def by (rule dict_get_new_layers)
  have "dict_get g ''vendorProductId'' = Inr (JInt 839864388)"
    unfolding g_def by (rule dict_get_new_id_GMMK)
  then have det: "detect_keyboard g = Inr (Some ''GMMK'')"
    by (simp add: detect_keyboard_present)
  have run2: "map_config g ''GMMK'' = Inr k"
    unfolding map_config_GMMK k_def using gl' kl by (rule priv_map_config_single)
  have kl': "dict_get k ''layers'' = Inr (JArr [JArr kl])"
    unfolding k_def by (rule dict_get_new_layers)
  have x14: "?xs ! 14 = JStr ''KC_DEL''" by (simp add: length_KEYCHRON_LAYER)
  with k14 have "kl \<noteq> ?xs" by auto
  with run1 det run2 kl' k14 x14 show ?thesis by blast
qed

text \<open>
  Claim C10. The non-placeholder tokens of each layout are distinct; hence (by
  \<open>get_mapping_injective\<close>) the index mapping of either direction has no two pairs with
  the same destination, so that every destination position is written at most once; and
  \<open>map_layer\<close> returns the same layer for every reordering of the pairs of either mapping.
\<close>

theorem concrete_mappings_injective:
  "distinct (filter (\<lambda>k. k \<noteq> ''KC_NO'') KEYCHRON_LAYER)
   \<and> distinct (filter (\<lambda>k. k \<noteq> ''KC_NO'') GMMK_LAYER)
   \<and> distinct (map snd (get_mapping KEYCHRON_LAYER GMMK_LAYER))
   \<and> distinct (map snd (get_mapping GMMK_LAYER KEYCHRON_LAYER))
   \<and> (\<forall>m layer n fs out. mset m = mset (get_mapping KEYCHRON_LAYER GMMK_LAYER) \<longrightarrow>
         (map_layer layer n m fs = Inr out)
           = (map_layer layer n (get_mapping KEYCHRON_LAYER GMMK_LAYER) fs = Inr out))
   \<and> (\<forall>m layer n fs out. mset m = mset (get_mapping GMMK_LAYER KEYCHRON_LAYER) \<longrightarrow>
         (map_layer layer n m fs = Inr out)
           = (map_layer layer n (get_mapping GMMK_LAYER KEYCHRON_LAYER) fs = Inr out))"
proof -
  have reorder: "(map_layer layer n m fs = Inr out) = (map_layer layer n (get_mapping old new) fs = Inr out)"
    if d: "distinct (filter (\<lambda>k. k \<noteq> ''KC_NO'') old)" and p: "mset m = mset (get_mapping old new)"
    for old new m layer n fs out
  proof -
    let ?m = "get_mapping old new"
    have d0: "distinct (map snd ?m)" using d by (rule get_mapping_injective)
    have n0: "\<forall>(i, j) \<in> set ?m. 0 \<le> j" using get_mapping_in_range [of old new] by auto
    from p have "mset (map snd m) = mset (map snd ?m)" by simp
    with d0 have d1: "distinct (map snd m)" using mset_eq_imp_distinct_iff by blast
    from p have "set m = set ?m" by (rule mset_eq_setD)
    with n0 have n1: "\<forall>(i, j) \<in> set m. 0 \<le> j" by simp
    show ?thesis
      unfolding map_layer_def
      using map_layer_loop_reorder [OF p d0 n0] map_layer_loop_reorder [OF p [symmetric] d1 n1]
      by blast
  qed
  from distinct_KEYCHRON_LAYER distinct_GMMK_LAYER
    get_mapping_injective [OF distinct_KEYCHRON_LAYER, of GMMK_LAYER]
    get_mapping_injective [OF distinct_GMMK_LAYER, of KEYCHRON_LAYER]
    reorder [OF distinct_KEYCHRON_LAYER] reorder [OF distinct_GMMK_LAYER]
  show ?thesis by blast
qed

theorem concrete_mappings_injective_witness:
  "mset (rev (get_mapping KEYCHRON_LAYER GMMK_LAYER)) = mset (get_mapping KEYCHRON_LAYER GMMK_LAYER)
   \<and> (\<forall>out. (map_layer (JArr (map JStr KEYCHRON_LAYER)) (length GMMK_LAYER)
                (rev (get_mapping KEYCHRON_LAYER GMMK_LAYER)) KEYCHRON_FIXES = Inr out)
           = (map_layer (JArr (map JStr KEYCHRON_LAYER)) (length GMMK_LAYER)
                (get_mapping KEYCHRON_LAYER GMMK_LAYER) KEYCHRON_FIXES = Inr out))"
proof -
  have h: "mset (rev (get_mapping KEYCHRON_LAYER GMMK_LAYER))
      = mset (get_mapping KEYCHRON_LAYER GMMK_LAYER)" by simp
  with concrete_mappings_injective show ?thesis by blast
qed

subsection \<open>No object of the caller is written\<close>

lemma st_obj_Inr: "st_obj s a = Inr ob \<longleftrightarrow> a < length s \<and> ob = s ! a"
  by (auto simp: st_obj_def)

lemma st_setitem_frame:
  assumes "st_setitem s a i v = Inr s'"
  shows "length s' = length s \<and> (\<forall>b. b \<noteq> a \<longrightarrow> s' ! b = s ! b)"
  using assms
  by (auto simp: st_setitem_def split: sum.splits obj.splits)

lemma map_layer_loop_st_frame:
  "map_layer_loop_st s layer fs m a = Inr s' \<Longrightarrow>
     length s' = length s \<and> (\<forall>b. b \<noteq> a \<longrightarrow> s' ! b = s ! b)"
proof (induction m arbitrary: s)
  case Nil
  then show ?case by simp
next
  case (Cons p m)
  obtain i j where p: "p = (i, j)" by (cases p)
  from Cons.prems consider
    (skip) "map_layer_loop_st s layer fs m a = Inr s'"
  | (store) v s1 where "st_setitem s a j v = Inr s1" "map_layer_loop_st s1 layer fs m a = Inr s'"
    unfolding p by (auto split: sum.splits if_splits)
  then show ?case
  proof cases
    case skip
    then show ?thesis by (rule Cons.IH)
  next
    case store
    from st_setitem_frame [OF store(1)] Cons.IH [OF store(2)] show ?thesis by simp
  qed
qed

lemma map_layer_st_frame:
  assumes "map_layer_st s layer n m fs = Inr (v, s')"
  shows "v = VRef (length s) \<and> length s' = Suc (length s) \<and> (\<forall>b < length s. s' ! b = s ! b)"
proof -
  let ?s1 = "s @ [OList (replicate n (VStr ''KC_NO''))]"
  from assms have v: "v = VRef (length s)"
    and run: "map_layer_loop_st ?s1 layer fs m (length s) = Inr s'"
    by (auto simp: map_layer_st_def st_alloc_def split: sum.splits)
  from map_layer_loop_st_frame [OF run]
  have "length s' = Suc (length s)" and "\<forall>b. b \<noteq> length s \<longrightarrow> s' ! b = ?s1 ! b" by simp_all
  with v show ?thesis by (simp add: nth_append)
qed

lemma map_layers_st_frame:
  "map_layers_st s ls n m fs = Inr (vs, s') \<Longrightarrow>
     length s \<le> length s' \<and> (\<forall>b < length s. s' ! b = s ! b)"
proof (induction ls arbitrary: s vs)
  case Nil
  then show ?case by simp
next
  case (Cons l ls)
  from Cons.prems obtain v s1 vs' where l: "map_layer_st s l n m fs = Inr (v, s1)"
    and r: "map_layers_st s1 ls n m fs = Inr (vs', s')"
    by (auto split: sum.splits prod.splits)
  from map_layer_st_frame [OF l] Cons.IH [OF r] show ?case by simp
qed

lemma st_dict_update_Inr:
  "st_dict_update s a other = Inr s' \<longleftrightarrow>
     (\<exists>kvs. a < length s \<and> s ! a = ODict kvs \<and> s' = s[a := ODict (dict_update kvs other)])"
  by (auto simp: st_dict_update_def st_obj_def split: obj.splits)

lemma priv_map_config_st_frame:
  assumes "priv_map_config_st s config info n m fs = Inr (new_config, s')"
  shows "config < length s \<and> new_config = length s \<and> length s < length s'
       \<and> (\<forall>b < length s. s' ! b = s ! b)
       \<and> (\<exists>kvs nl. s ! config = ODict kvs \<and> length s < nl \<and> nl < length s'
            \<and> s' ! new_config = ODict (dict_update (dict_update kvs info) [(''layers'', VRef nl)]))"
proof -
  from assms obtain s1 s2 layers ls new_layers s3 s5 where
    copy: "st_copy s config = Inr (new_config, s1)"
    and upd1: "st_dict_update s1 new_config info = Inr s2"
    and ml: "map_layers_st s2 ls n m fs = Inr (new_layers, s3)"
    and upd2: "st_dict_update (s3 @ [OList new_layers]) new_config [(''layers'', VRef (length s3))]
                 = Inr s5"
    and s': "s' = s5"
    unfolding priv_map_config_st_def st_alloc_def
    by (auto split: sum.splits prod.splits)
  from copy have c: "config < length s" and nc: "new_config = length s"
    and s1: "s1 = s @ [s ! config]"
    by (auto simp: st_copy_def st_alloc_def st_obj_def split: if_splits)
  from upd1 obtain kvs where kvs: "s1 ! new_config = ODict kvs"
    and s2: "s2 = s1[new_config := ODict (dict_update kvs info)]"
    unfolding st_dict_update_Inr by blast
  from kvs have ck: "s ! config = ODict kvs" by (simp add: s1 nc)
  have len2: "length s2 = Suc (length s)" by (simp add: s2 s1)
  have old2: "\<forall>b < length s. s2 ! b = s ! b" by (simp add: s2 s1 nc nth_append)
  have new2: "s2 ! new_config = ODict (dict_update kvs info)" by (simp add: s2 s1 nc)
  from map_layers_st_frame [OF ml] have len3: "length s2 \<le> length s3"
    and keep3: "\<forall>b < length s2. s3 ! b = s2 ! b" by simp_all
  from keep3 len2 old2 have old3: "\<forall>b < length s. s3 ! b = s ! b" by simp
  from keep3 len2 new2 have new3: "s3 ! new_config = ODict (dict_update kvs info)"
    by (simp add: nc)
  let ?s4 = "s3 @ [OList new_layers]"
  from len2 len3 have nc3: "new_config < length s3" by (simp add: nc)
  from upd2 obtain kvs' where "?s4 ! new_config = ODict kvs'"
    and s5: "s5 = ?s4[new_config := ODict (dict_update kvs' [(''layers'', VRef (length s3))])]"
    unfolding st_dict_update_Inr by blast
  with new3 nc3 have kvs': "kvs' = dict_update kvs info" by (simp add: nth_append)
  have len5: "length s5 = Suc (length s3)" by (simp add: s5)
  have old5: "\<forall>b < length s. s5 ! b = s ! b"
    using old3 len2 len3 by (simp add: s5 nc nth_append)
  have new5: "s5 ! new_config
      = ODict (dict_update (dict_update kvs info) [(''layers'', VRef (length s3))])"
    using nc3 by (simp add: s5 kvs')
  from len2 len3 have "length s < length s3" by simp
  with c nc ck old5 new5 len5 show ?thesis unfolding s' by auto
qed

lemma map_config_st_unfold:
  "map_config_st s config keyboard =
     priv_map_config_st s config
       (map (\<lambda>kv. (fst kv, atom (snd kv)))
          (if keyboard = ''KEYCHRON'' then GMMK_INFO else KEYCHRON_INFO))
       (if keyboard = ''KEYCHRON'' then length GMMK_LAYER else length KEYCHRON_LAYER)
       (get_mapping (if keyboard = ''KEYCHRON'' then KEYCHRON_LAYER else GMMK_LAYER)
          (if keyboard = ''KEYCHRON'' then GMMK_LAYER else KEYCHRON_LAYER))
       (if keyboard = ''KEYCHRON'' then KEYCHRON_FIXES else GMMK_FIXES)"
  unfolding map_config_st_def Let_def ..

lemma info_pass:
  assumes "info = GMMK_INFO \<or> info = KEYCHRON_INFO"
    and "k \<noteq> ''vendorProductId''" and "k \<noteq> ''name''" and "k \<noteq> ''layers''"
  shows "map_of (dict_update (dict_update kvs (map (\<lambda>kv. (fst kv, atom (snd kv))) info))
           [(''layers'', v)]) k = map_of kvs k"
proof -
  from assms(1) have "map_of (rev (map (\<lambda>kv. (fst kv, atom (snd kv))) info)) k = None"
  proof
    assume "info = GMMK_INFO"
    with assms(2,3) show ?thesis by (simp add: GMMK_INFO_def)
  next
    assume "info = KEYCHRON_INFO"
    with assms(2,3) show ?thesis by (simp add: KEYCHRON_INFO_def)
  qed
  with assms(4) show ?thesis by (simp add: map_of_dict_update map_add_def)
qed

text \<open>
  Claim C7. Whenever \<open>map_config\<close>, run on a store, returns: the result is a new object
  (its address is the first free one of the caller's store, so it is not \<open>config\<close>);
  every object the caller's store holds, the configuration dict, its list of layers and
  every layer among them, is the same after the call as before; the new configuration has
  a new list as its \<^verbatim>\<open>layers\<close>; and every field other than \<^verbatim>\<open>vendorProductId\<close>,
  \<^verbatim>\<open>name\<close> and \<^verbatim>\<open>layers\<close> has the value it has in \<open>config\<close>, absent where it is
  absent there.
\<close>

theorem map_config_st_frame:
  assumes "map_config_st s config keyboard = Inr (new_config, s')"
  shows "config < length s \<and> new_config = length s
       \<and> (\<forall>a < length s. s' ! a = s ! a)
       \<and> (\<exists>kvs kvs' nl. s ! config = ODict kvs \<and> s' ! new_config = ODict kvs'
            \<and> map_of kvs' ''layers'' = Some (VRef nl) \<and> length s < nl
            \<and> (\<forall>k. k \<noteq> ''vendorProductId'' \<and> k \<noteq> ''name'' \<and> k \<noteq> ''layers''
                  \<longrightarrow> map_of kvs' k = map_of kvs k))"
proof -
  define info where "info = (if keyboard = ''KEYCHRON'' then GMMK_INFO else KEYCHRON_INFO)"
  have info: "info = GMMK_INFO \<or> info = KEYCHRON_INFO" by (simp add: info_def)
  let ?info = "map (\<lambda>kv. (fst kv, atom (snd kv))) info"
  note run = assms [unfolded map_config_st_unfold, folded info_def]
  from priv_map_config_st_frame [OF run] obtain kvs nl where
    c: "config < length s" and nc: "new_config = length s"
    and old: "\<forall>b < length s. s' ! b = s ! b"
    and ck: "s ! config = ODict kvs" and nl: "length s < nl"
    and new: "s' ! new_config = ODict (dict_update (dict_update kvs ?info) [(''layers'', VRef nl)])"
    by blast
  let ?kvs' = "dict_update (dict_update kvs ?info) [(''layers'', VRef nl)]"
  have layers: "map_of ?kvs' ''layers'' = Some (VRef nl)"
    by (simp add: map_of_dict_update)
  have pass: "\<forall>k. k \<noteq> ''vendorProductId'' \<and> k \<noteq> ''name'' \<and> k \<noteq> ''layers''
      \<longrightarrow> map_of ?kvs' k = map_of kvs k"
  proof (intro allI impI, elim conjE)
    fix k :: string
    assume "k \<noteq> ''vendorProductId''" "k \<noteq> ''name''" "k \<noteq> ''layers''"
    with info show "map_of ?kvs' k = map_of kvs k" by (rule info_pass)
  qed
  have "\<exists>kvs kvs' nl. s ! config = ODict kvs \<and> s' ! new_config = ODict kvs'
            \<and> map_of kvs' ''layers'' = Some (VRef nl) \<and> length s < nl
            \<and> (\<forall>k. k \<noteq> ''vendorProductId'' \<and> k \<noteq> ''name'' \<and> k \<noteq> ''layers''
                  \<longrightarrow> map_of kvs' k = map_of kvs k)"
    using ck new layers nl pass by (intro exI conjI)
  with c nc old show ?thesis by (intro conjI)
qed

lemma map_config_st_example:
  "map_config_st
     [OList (map VStr KEYCHRON_LAYER), OList [VRef 0],
      ODict [(''name'', VStr ''my board''), (''vendorProductId'', VInt 875824656),
             (''macros'', VRef 3), (''layers'', VRef 1)],
      OList [VStr ''KC_A'']] 2 ''KEYCHRON''
   = Inr (4,
     [OList (map VStr KEYCHRON_LAYER), OList [VRef 0],
      ODict [(''name'', VStr ''my board''), (''vendorProductId'', VInt 875824656),
             (''macros'', VRef 3), (''layers'', VRef 1)],
      OList [VStr ''KC_A''],
      ODict [(''name'', VStr ''GMMK Pro''), (''vendorProductId'', VInt 839864388),
             (''macros'', VRef 3), (''layers'', VRef 6)],
      OList (map VStr (GMMK_LAYER[53 := ''KC_NO''])),
      OList [VRef 5]])"
  by code_simp

theorem map_config_st_frame_witness:
  "\<exists>s'. map_config_st
          [OList (map VStr KEYCHRON_LAYER), OList [VRef 0],
           ODict [(''name'', VStr ''my board''), (''vendorProductId'', VInt 875824656),
                  (''macros'', VRef 3), (''layers'', VRef 1)],
           OList [VStr ''KC_A'']] 2 ''KEYCHRON'' = Inr (4, s')
      \<and> s' ! 0 = OList (map VStr KEYCHRON_LAYER)
      \<and> s' ! 1 = OList [VRef 0]
      \<and> s' ! 2 = ODict [(''name'', VStr ''my board''), (''vendorProductId'', VInt 875824656),
                         (''macros'', VRef 3), (''layers'', VRef 1)]
      \<and> s' ! 3 = OList [VStr ''KC_A'']
      \<and> (\<exists>kvs'. s' ! 4 = ODict kvs' \<and> map_of kvs' ''macros'' = Some (VRef 3))"
proof -
  define d where "d = [(''name'', VStr ''my board''), (''vendorProductId'', VInt 875824656),
                       (''macros'', VRef 3), (''layers'', VRef 1)]"
  define s where "s = [OList (map VStr KEYCHRON_LAYER), OList [VRef 0], ODict d,
                       OList [VStr ''KC_A'']]"
  have ex: "\<exists>s'. map_config_st s 2 ''KEYCHRON'' = Inr (4, s')"
    unfolding s_def d_def by (rule exI) (rule map_config_st_example)
  then obtain s' where run: "map_config_st s 2 ''KEYCHRON'' = Inr (4, s')" ..
  note frame = map_config_st_frame [OF run]
  from frame have old: "\<forall>a < length s. s' ! a = s ! a" by (elim conjE)
  from frame obtain kvs kvs' where kvs: "s ! 2 = ODict kvs" and kvs': "s' ! 4 = ODict kvs'"
    and pass: "\<forall>k. k \<noteq> ''vendorProductId'' \<and> k \<noteq> ''name'' \<and> k \<noteq> ''layers''
                  \<longrightarrow> map_of kvs' k = map_of kvs k"
    by (elim conjE exE)
  have len: "length s = 4" by (simp add: s_def)
  from old len have o: "s' ! 0 = s ! 0" "s' ! 1 = s ! 1" "s' ! 2 = s ! 2" "s' ! 3 = s ! 3"
    by simp_all
  have sv: "s ! 0 = OList (map VStr KEYCHRON_LAYER)" "s ! 1 = OList [VRef 0]" "s ! 2 = ODict d"
    "s ! 3 = OList [VStr ''KC_A'']"
    by (simp_all add: s_def)
  from kvs sv have "kvs = d" by simp
  then have "map_of kvs ''macros'' = Some (VRef 3)" by (simp add: d_def)
  moreover have ne: "''macros'' \<noteq> ''vendorProductId'' \<and> ''macros'' \<noteq> ''name''
      \<and> ''macros'' \<noteq> ''layers''"
    by simp
  from pass have "''macros'' \<noteq> ''vendorProductId'' \<and> ''macros'' \<noteq> ''name''
      \<and> ''macros'' \<noteq> ''layers'' \<longrightarrow> map_of kvs' ''macros'' = map_of kvs ''macros''"
    by (rule spec)
  from this ne have "map_of kvs' ''macros'' = map_of kvs ''macros''" by (rule mp)
  ultimately have m: "map_of kvs' ''macros'' = Some (VRef 3)" by simp
  have final: "map_config_st s 2 ''KEYCHRON'' = Inr (4, s')
      \<and> s' ! 0 = OList (map VStr KEYCHRON_LAYER)
      \<and> s' ! 1 = OList [VRef 0]
      \<and> s' ! 2 = ODict d
      \<and> s' ! 3 = OList [VStr ''KC_A'']
      \<and> (\<exists>kvs'. s' ! 4 = ODict kvs' \<and> map_of kvs' ''macros'' = Some (VRef 3))"
    using run o sv kvs' m by (intro conjI exI) simp_all
  show ?thesis by (rule exI [of _ s'], rule final [unfolded s_def d_def])
qed

end
